theory Spec2Isabelle
  imports Main "HOL-Library.Word"
begin

section \<open>Keys, metadata and the persisted nodes (lib/filesystem.go)\<close>

text \<open>
  An \<open>ObjectKey\<close> is an opaque string; a body is a Go \<open>[]byte\<close>. A \<open>time.Time\<close> is
  carried as an integer time stamp: no operation of this file looks inside it.
  The \<open>sess\<close> back-reference of every struct is not a field of the records below: the
  session is handed to each operation as an argument, and the object store it owns is
  threaded through as explicit state.
\<close>

type_synonym ObjectKey = string
type_synonym bytes = "8 word list"
type_synonym Time = int

record Meta =
  Size :: "64 word"
  Mode :: "32 word"
  UID :: "32 word"
  GID :: "32 word"
  Atime :: Time
  Ctime :: Time
  Mtime :: Time

record Extent =
  Key :: ObjectKey
  body :: bytes
  dirty :: bool

record Directory =
  Key :: ObjectKey
  Meta :: Meta
  FileMeta :: "string \<rightharpoonup> ObjectKey"

record SymLink =
  Key :: ObjectKey
  Meta :: Meta
  LinkTo :: string

text \<open>
  \<open>File.Extent\<close> is a Go \<open>map[int64]*Extent\<close>. Each index owns its own extent (no two
  indices share a pointer, no entry is nil), so the map holds the extents themselves.
\<close>

record File =
  Key :: ObjectKey
  Meta :: Meta
  ExtentSize :: "64 word"
  Extent :: "64 word \<rightharpoonup> Extent"
  dirty :: bool

section \<open>What \<open>json.Marshal\<close> writes\<close>

text \<open>
  Only the exported fields carry a json tag. For a file that is key, meta, extent size
  and, per extent index, the extent's \<open>Key\<close> field (body and dirty flag are unexported).
\<close>

datatype json =
    DirectoryJSON ObjectKey Meta "string \<rightharpoonup> ObjectKey"
  | FileJSON ObjectKey Meta "64 word" "64 word \<rightharpoonup> ObjectKey"
  | SymLinkJSON ObjectKey Meta string

definition Directory_json :: "Directory \<Rightarrow> json" where
  "Directory_json d = DirectoryJSON (Directory.Key d) (Directory.Meta d) (FileMeta d)"

definition SymLink_json :: "SymLink \<Rightarrow> json" where
  "SymLink_json l = SymLinkJSON (SymLink.Key l) (SymLink.Meta l) (LinkTo l)"

definition File_json :: "File \<Rightarrow> json" where
  "File_json f =
     FileJSON (File.Key f) (File.Meta f) (ExtentSize f)
       (\<lambda>i. map_option Extent.Key (Extent f i))"

datatype error = NotFound | Failure string

text \<open>
  The session: the content-addressing function \<open>KeyGen\<close>, and the imported
  \<open>json.Marshal\<close>, taken as a parameter that yields the encoded text or an error.
\<close>

record Session =
  KeyGen :: "bytes \<Rightarrow> ObjectKey"
  json_Marshal :: "json \<Rightarrow> error + bytes"

section \<open>The object store\<close>

text \<open>
  A stored object is a byte string. An object written by a node's \<open>Save\<close> is kept
  together with the record it encodes, so that decoding it is reading that record back.
\<close>

datatype blob = Raw bytes | Encoded json bytes

fun blob_bytes :: "blob \<Rightarrow> bytes" where
  "blob_bytes (Raw b) = b"
| "blob_bytes (Encoded v b) = b"

datatype call =
    CallUpload ObjectKey blob
  | CallUploadWithCache ObjectKey blob
  | CallDownload ObjectKey
  | CallIsExist ObjectKey

text \<open>
  The state of the store client: the objects held remotely, the calls made so far (the
  record of every access), and which writes and reads fail: a fault may depend on the
  whole history of calls, so both lasting and transient failures are covered.
\<close>

record s3 =
  objects :: "ObjectKey \<rightharpoonup> blob"
  calls :: "call list"
  upload_fault :: "call list \<Rightarrow> ObjectKey \<Rightarrow> error option"
  download_fault :: "call list \<Rightarrow> ObjectKey \<Rightarrow> error option"

text \<open>Modelled from the spec: the store client's \<open>IsExist\<close> (its source is not part of
  lib/filesystem.go), "boolean presence check for key".\<close>

definition IsExist :: "ObjectKey \<Rightarrow> s3 \<Rightarrow> bool \<times> s3" where
  "IsExist key st = (objects st key \<noteq> None, st\<lparr>calls := calls st @ [CallIsExist key]\<rparr>)"

text \<open>Modelled from the spec: the store client's \<open>Upload\<close>, "durably stores content at
  key; error on failure"; the plain upload always performs the write.\<close>

definition Upload :: "ObjectKey \<Rightarrow> blob \<Rightarrow> s3 \<Rightarrow> error option \<times> s3" where
  "Upload key b st =
     (case upload_fault st (calls st) key of
        Some err \<Rightarrow> (Some err, st\<lparr>calls := calls st @ [CallUpload key b]\<rparr>)
      | None \<Rightarrow>
          (None, st\<lparr>objects := (objects st)(key \<mapsto> b),
                    calls := calls st @ [CallUpload key b]\<rparr>))"

text \<open>Modelled from the spec: the store client's \<open>UploadWithCache\<close>, "stores content at
  key unless already present under that key; error on failure": a no-op success when
  the key is present, the write of \<open>Upload\<close> otherwise.\<close>

definition UploadWithCache :: "ObjectKey \<Rightarrow> blob \<Rightarrow> s3 \<Rightarrow> error option \<times> s3" where
  "UploadWithCache key b st =
     (if objects st key \<noteq> None
      then (None, st\<lparr>calls := calls st @ [CallUploadWithCache key b]\<rparr>)
      else (case upload_fault st (calls st) key of
              Some err \<Rightarrow> (Some err, st\<lparr>calls := calls st @ [CallUploadWithCache key b]\<rparr>)
            | None \<Rightarrow>
                (None, st\<lparr>objects := (objects st)(key \<mapsto> b),
                          calls := calls st @ [CallUploadWithCache key b]\<rparr>)))"

text \<open>Modelled from the spec: the store client's \<open>Download\<close>, "byte content previously
  stored at key; error if absent or on failure".\<close>

definition Download :: "ObjectKey \<Rightarrow> s3 \<Rightarrow> (error + blob) \<times> s3" where
  "Download key st =
     (case download_fault st (calls st) key of
        Some err \<Rightarrow> (Inl err, st\<lparr>calls := calls st @ [CallDownload key]\<rparr>)
      | None \<Rightarrow>
          (case objects st key of
             None \<Rightarrow> (Inl NotFound, st\<lparr>calls := calls st @ [CallDownload key]\<rparr>)
           | Some b \<Rightarrow> (Inr b, st\<lparr>calls := calls st @ [CallDownload key]\<rparr>)))"

text \<open>Modelled from the spec: loading a node is "fetch the blob at a given key, decode
  it"; the loader is not part of lib/filesystem.go. Decoding an object written by a
  \<open>Save\<close> gives back the record that was encoded; a raw extent body is not a node.\<close>

definition Load :: "ObjectKey \<Rightarrow> s3 \<Rightarrow> (error + json) \<times> s3" where
  "Load key st =
     (case Download key st of
        (Inl err, st') \<Rightarrow> (Inl err, st')
      | (Inr (Raw b), st') \<Rightarrow> (Inl (Failure ''decode''), st')
      | (Inr (Encoded v b), st') \<Rightarrow> (Inr v, st'))"

section \<open>Directory.Save and SymLink.Save\<close>

definition Directory_Save :: "Session \<Rightarrow> Directory \<Rightarrow> s3 \<Rightarrow> error option \<times> s3" where
  "Directory_Save sess d st =
     (case json_Marshal sess (Directory_json d) of
        Inl err \<Rightarrow> (Some err, st)
      | Inr result \<Rightarrow>
          UploadWithCache (Directory.Key d) (Encoded (Directory_json d) result) st)"

definition SymLink_Save :: "Session \<Rightarrow> SymLink \<Rightarrow> s3 \<Rightarrow> error option \<times> s3" where
  "SymLink_Save sess l st =
     (case json_Marshal sess (SymLink_json l) of
        Inl err \<Rightarrow> (Some err, st)
      | Inr result \<Rightarrow>
          UploadWithCache (SymLink.Key l) (Encoded (SymLink_json l) result) st)"

section \<open>Extent.CurrentKey and Extent.Fill\<close>

definition CurrentKey :: "Session \<Rightarrow> Extent \<Rightarrow> ObjectKey" where
  "CurrentKey sess e = KeyGen sess (body e)"

text \<open>\<open>Fill\<close> returns the error (if any), the extent as it is left, and the store.\<close>

definition Fill :: "Extent \<Rightarrow> s3 \<Rightarrow> error option \<times> Extent \<times> s3" where
  "Fill e st =
     (if Extent.dirty e \<or> length (body e) \<noteq> 0 then (None, e, st)
      else (case Download (Extent.Key e) st of
              (Inl err, st') \<Rightarrow> (Some err, e, st')
            | (Inr b, st') \<Rightarrow> (None, e\<lparr>body := blob_bytes b\<rparr>, st')))"

section \<open>File.Save\<close>

text \<open>
  \<open>File.Save\<close> starts one goroutine per extent and then waits in a \<open>select\<close>. A goroutine
  is modelled by the statement it is about to execute:
  \<^item> \<open>Start\<close>: the test of \<open>e.dirty\<close> (and, when dirty, \<open>key := e.CurrentKey()\<close>);
  \<^item> \<open>Exist key\<close>: the call \<open>IsExist(key)\<close>;
  \<^item> \<open>Uploading key\<close>: the call \<open>Upload(key, e.body)\<close>;
  \<^item> \<open>Sending err\<close>: blocked in \<open>errc <- err\<close> (the channel is unbuffered);
  \<^item> \<open>Clearing\<close>: \<open>e.dirty = false; wg.Done()\<close>;
  \<^item> \<open>Finished\<close>: returned after \<open>wg.Done()\<close>;
  \<^item> \<open>Abandoned\<close>: returned after the send, without \<open>wg.Done()\<close>.

  The caller is either in the \<open>select\<close> or has returned. The \<open>done\<close> channel is closed
  once every goroutine has called \<open>wg.Done()\<close>; a send on \<open>errc\<close> completes only
  together with the caller's receive. All goroutines are taken as started when the
  caller reaches the \<open>select\<close>: the launching loop does nothing else.
\<close>

datatype task = Start | Exist ObjectKey | Uploading ObjectKey | Sending error
  | Clearing | Finished | Abandoned

datatype caller = Select | Returned "error option"

record save_state =
  o_file :: File
  store :: s3
  tasks :: "64 word \<rightharpoonup> task"
  caller :: caller

definition Save_init :: "File \<Rightarrow> s3 \<Rightarrow> save_state" where
  "Save_init f st =
     \<lparr>o_file = f, store = st,
      tasks = (\<lambda>i. map_option (\<lambda>e. Start) (Extent f i)),
      caller = Select\<rparr>"

definition set_task :: "64 word \<Rightarrow> task \<Rightarrow> save_state \<Rightarrow> save_state" where
  "set_task i t s = s\<lparr>tasks := (tasks s)(i \<mapsto> t)\<rparr>"

text \<open>One statement of the goroutine of extent \<open>i\<close>, whose extent is \<open>e\<close>.\<close>

fun task_step :: "Session \<Rightarrow> 64 word \<Rightarrow> Extent \<Rightarrow> task \<Rightarrow> save_state \<Rightarrow> save_state option" where
  "task_step sess i e Start s =
     (if \<not> Extent.dirty e then Some (set_task i Finished s)
      else Some (set_task i (Exist (CurrentKey sess e)) s))"
| "task_step sess i e (Exist key) s =
     (case IsExist key (store s) of
        (found, st') \<Rightarrow>
          Some (set_task i (if found then Finished else Uploading key) (s\<lparr>store := st'\<rparr>)))"
| "task_step sess i e (Uploading key) s =
     (case Upload key (Raw (body e)) (store s) of
        (Some err, st') \<Rightarrow> Some (set_task i (Sending err) (s\<lparr>store := st'\<rparr>))
      | (None, st') \<Rightarrow> Some (set_task i Clearing (s\<lparr>store := st'\<rparr>)))"
| "task_step sess i e (Sending err) s =
     (if caller s = Select
      then Some (set_task i Abandoned (s\<lparr>caller := Returned (Some err)\<rparr>))
      else None)"
| "task_step sess i e Clearing s =
     Some (set_task i Finished
       (s\<lparr>o_file := (o_file s)\<lparr>Extent := (Extent (o_file s))(i \<mapsto> e\<lparr>Extent.dirty := False\<rparr>)\<rparr>\<rparr>))"
| "task_step sess i e Finished s = None"
| "task_step sess i e Abandoned s = None"

definition Save_task :: "Session \<Rightarrow> 64 word \<Rightarrow> save_state \<Rightarrow> save_state option" where
  "Save_task sess i s =
     (case tasks s i of
        None \<Rightarrow> None
      | Some t \<Rightarrow>
          (case Extent (o_file s) i of
             None \<Rightarrow> None
           | Some e \<Rightarrow> task_step sess i e t s))"

text \<open>The wait group has been released: every goroutine called \<open>wg.Done()\<close>.\<close>

definition all_done :: "save_state \<Rightarrow> bool" where
  "all_done s = (\<forall>i. tasks s i = None \<or> tasks s i = Some Finished)"

text \<open>The \<open>done\<close> branch of the \<open>select\<close>: marshal the file and upload the record.\<close>

definition Save_caller :: "Session \<Rightarrow> save_state \<Rightarrow> save_state option" where
  "Save_caller sess s =
     (if caller s = Select \<and> all_done s
      then (case json_Marshal sess (File_json (o_file s)) of
              Inl err \<Rightarrow> Some (s\<lparr>caller := Returned (Some err)\<rparr>)
            | Inr result \<Rightarrow>
                (case UploadWithCache (File.Key (o_file s))
                        (Encoded (File_json (o_file s)) result) (store s) of
                   (err, st') \<Rightarrow> Some (s\<lparr>store := st', caller := Returned err\<rparr>)))
      else None)"

text \<open>
  A schedule names, step by step, who runs next; \<open>Save_run\<close> follows it and is \<open>None\<close>
  when the schedule asks for a step that cannot be taken. The runs of \<open>File.Save\<close> on
  file \<open>f\<close> and store \<open>st\<close> are the \<open>Save_run sess sched (Save_init f st)\<close>; the call has
  returned \<open>r\<close> once the caller is \<open>Returned r\<close>, and goroutines may still run after that.
\<close>

datatype action = Task "64 word" | Caller

fun Save_step :: "Session \<Rightarrow> action \<Rightarrow> save_state \<Rightarrow> save_state option" where
  "Save_step sess (Task i) s = Save_task sess i s"
| "Save_step sess Caller s = Save_caller sess s"

fun Save_run :: "Session \<Rightarrow> action list \<Rightarrow> save_state \<Rightarrow> save_state option" where
  "Save_run sess [] s = Some s"
| "Save_run sess (a # sched) s =
     (case Save_step sess a s of
        None \<Rightarrow> None
      | Some s' \<Rightarrow> Save_run sess sched s')"

text \<open>The extent invariant of the data model: a clean extent with a loaded body has
  the body that its \<open>Key\<close> addresses.\<close>

definition clean_matches :: "Session \<Rightarrow> Extent \<Rightarrow> bool" where
  "clean_matches sess e =
     (\<not> Extent.dirty e \<and> body e \<noteq> [] \<longrightarrow> CurrentKey sess e = Extent.Key e)"

section \<open>What holds in every state of a run of File.Save\<close>

text \<open>
  The facts below are stated relative to the file \<open>f\<close> and the store \<open>st\<close> the call
  started from. \<open>new_calls\<close> are the store calls made since then. \<open>task_ok\<close> ties the
  statement a goroutine has reached to its extent (as it was, \<open>e0\<close>, and as it is, \<open>e\<close>)
  and to the calls made; \<open>store_ok\<close> says where the objects of the store come from;
  \<open>caller_ok\<close> says what the caller has done when it is in the \<open>select\<close> and when it
  has returned.
\<close>

definition new_calls :: "s3 \<Rightarrow> save_state \<Rightarrow> call list" where
  "new_calls st s = drop (length (calls st)) (calls (store s))"

definition no_cache_upload :: "call list \<Rightarrow> bool" where
  "no_cache_upload cs = (\<forall>k b. CallUploadWithCache k b \<notin> set cs)"

definition task_ok :: "Session \<Rightarrow> s3 \<Rightarrow> save_state \<Rightarrow> Extent \<Rightarrow> Extent \<Rightarrow> task \<Rightarrow> bool" where
  "task_ok sess st s e0 e t =
     (case t of
        Start \<Rightarrow> e = e0
      | Exist k \<Rightarrow> e = e0 \<and> Extent.dirty e0 \<and> k = CurrentKey sess e0
      | Uploading k \<Rightarrow> e = e0 \<and> Extent.dirty e0 \<and> k = CurrentKey sess e0 \<and> objects st k = None
      | Sending err \<Rightarrow>
          e = e0 \<and> Extent.dirty e0 \<and> objects st (CurrentKey sess e0) = None \<and>
          (\<exists>h. upload_fault st h (CurrentKey sess e0) = Some err) \<and>
          CallUpload (CurrentKey sess e0) (Raw (body e0)) \<in> set (new_calls st s)
      | Clearing \<Rightarrow>
          e = e0 \<and> Extent.dirty e0 \<and> objects st (CurrentKey sess e0) = None \<and>
          (\<exists>h. upload_fault st h (CurrentKey sess e0) = None) \<and>
          CallUpload (CurrentKey sess e0) (Raw (body e0)) \<in> set (new_calls st s)
      | Finished \<Rightarrow>
          (e = e0 \<and>
           (\<not> Extent.dirty e0 \<or> objects st (CurrentKey sess e0) \<noteq> None \<or>
            ((\<exists>b. CallUpload (CurrentKey sess e0) b \<in> set (new_calls st s)) \<and>
             (\<exists>h. upload_fault st h (CurrentKey sess e0) = None)))) \<or>
          (Extent.dirty e0 \<and> e = e0\<lparr>Extent.dirty := False\<rparr> \<and>
           objects st (CurrentKey sess e0) = None \<and>
           (\<exists>h. upload_fault st h (CurrentKey sess e0) = None) \<and>
           CallUpload (CurrentKey sess e0) (Raw (body e0)) \<in> set (new_calls st s))
      | Abandoned \<Rightarrow>
          e = e0 \<and> Extent.dirty e0 \<and> objects st (CurrentKey sess e0) = None \<and>
          (\<exists>err h. upload_fault st h (CurrentKey sess e0) = Some err \<and>
                   caller s = Returned (Some err)) \<and>
          CallUpload (CurrentKey sess e0) (Raw (body e0)) \<in> set (new_calls st s))"

definition slot_ok ::
  "Session \<Rightarrow> s3 \<Rightarrow> save_state \<Rightarrow> Extent option \<Rightarrow> Extent option \<Rightarrow> task option \<Rightarrow> bool" where
  "slot_ok sess st s x0 x t =
     (case x0 of
        None \<Rightarrow> x = None \<and> t = None
      | Some e0 \<Rightarrow> (\<exists>e t'. x = Some e \<and> t = Some t' \<and> task_ok sess st s e0 e t'))"

definition frame_ok :: "Session \<Rightarrow> File \<Rightarrow> s3 \<Rightarrow> save_state \<Rightarrow> bool" where
  "frame_ok sess f st s =
     (o_file s = f\<lparr>Extent := Extent (o_file s)\<rparr> \<and>
      (\<forall>i. slot_ok sess st s (Extent f i) (Extent (o_file s) i) (tasks s i)))"

definition store_ok :: "Session \<Rightarrow> File \<Rightarrow> s3 \<Rightarrow> save_state \<Rightarrow> bool" where
  "store_ok sess f st s =
     (upload_fault (store s) = upload_fault st \<and>
      download_fault (store s) = download_fault st \<and>
      calls (store s) = calls st @ new_calls st s \<and>
      (\<forall>k. objects st k \<noteq> None \<longrightarrow> objects (store s) k \<noteq> None) \<and>
      (\<forall>k. objects (store s) k \<noteq> None \<longrightarrow>
           objects st k \<noteq> None \<or> (\<exists>b. CallUpload k b \<in> set (new_calls st s)) \<or>
           (\<exists>b. CallUploadWithCache k b \<in> set (new_calls st s))) \<and>
      (\<forall>k. objects (store s) k \<noteq> None \<longrightarrow>
           objects st k \<noteq> None \<or> (\<exists>h. upload_fault st h k = None)) \<and>
      (\<forall>k b. CallUpload k b \<in> set (new_calls st s) \<longrightarrow>
           objects st k = None \<and>
           (\<exists>i e. Extent f i = Some e \<and> Extent.dirty e \<and> k = CurrentKey sess e \<and>
                  b = Raw (body e))))"

definition caller_ok :: "Session \<Rightarrow> File \<Rightarrow> s3 \<Rightarrow> save_state \<Rightarrow> bool" where
  "caller_ok sess f st s =
     (case caller s of
        Select \<Rightarrow>
          (\<forall>i. tasks s i \<noteq> Some Abandoned) \<and> no_cache_upload (new_calls st s)
      | Returned r \<Rightarrow>
          (if \<exists>i. tasks s i = Some Abandoned
           then r \<noteq> None \<and> no_cache_upload (new_calls st s)
           else all_done s \<and>
             (case json_Marshal sess (File_json f) of
                Inl err \<Rightarrow> r = Some err \<and> no_cache_upload (new_calls st s)
              | Inr result \<Rightarrow>
                  (\<exists>pre. new_calls st s =
                           pre @ [CallUploadWithCache (File.Key f) (Encoded (File_json f) result)] \<and>
                         no_cache_upload pre \<and>
                         (r = None \<longrightarrow>
                            objects (store s) (File.Key f) = Some (Encoded (File_json f) result) \<or>
                            objects st (File.Key f) \<noteq> None \<or>
                            (\<exists>b. CallUpload (File.Key f) b \<in> set pre))))))"

definition Save_inv :: "Session \<Rightarrow> File \<Rightarrow> s3 \<Rightarrow> save_state \<Rightarrow> bool" where
  "Save_inv sess f st s =
     (frame_ok sess f st s \<and> store_ok sess f st s \<and> caller_ok sess f st s)"

text \<open>
  Counting uploads: a goroutine has made its \<open>Upload\<close> call when it is sending the error
  of that call, clearing the flag, or done with the flag cleared. \<open>count_ok\<close> says that
  the \<open>Upload\<close> calls made under a key are as many as the dirty extents with that
  content address whose goroutine has made its call.
\<close>

definition uploaded :: "task \<Rightarrow> Extent \<Rightarrow> bool" where
  "uploaded t e =
     (case t of
        Sending err \<Rightarrow> True
      | Clearing \<Rightarrow> True
      | Abandoned \<Rightarrow> True
      | Finished \<Rightarrow> \<not> Extent.dirty e
      | _ \<Rightarrow> False)"

definition uploader :: "Session \<Rightarrow> File \<Rightarrow> save_state \<Rightarrow> ObjectKey \<Rightarrow> 64 word \<Rightarrow> bool" where
  "uploader sess f s k i =
     (case (Extent f i, Extent (o_file s) i, tasks s i) of
        (Some e0, Some e, Some t) \<Rightarrow>
          Extent.dirty e0 \<and> CurrentKey sess e0 = k \<and> uploaded t e
      | _ \<Rightarrow> False)"

definition uploads_of :: "ObjectKey \<Rightarrow> call list \<Rightarrow> call list" where
  "uploads_of k cs = filter (\<lambda>c. case c of CallUpload k' b \<Rightarrow> k' = k | _ \<Rightarrow> False) cs"

definition count_ok :: "Session \<Rightarrow> File \<Rightarrow> s3 \<Rightarrow> save_state \<Rightarrow> bool" where
  "count_ok sess f st s =
     (\<forall>k. length (uploads_of k (new_calls st s)) = card {i. uploader sess f s k i})"

section \<open>Example inputs\<close>

text \<open>
  A session whose content address spells the bytes out as characters (so it is
  injective) and whose encoder succeeds; a store that holds nothing and never fails; a
  file with one dirty ten-byte extent at index 0 whose \<open>Key\<close> field is stale.
\<close>

definition ex_sess :: Session where
  "ex_sess = \<lparr>KeyGen = map (\<lambda>w. char_of (unat w)), json_Marshal = (\<lambda>v. Inr [123, 125])\<rparr>"

definition ex_meta :: Meta where
  "ex_meta = \<lparr>Size = 10, Mode = 420, UID = 0, GID = 0, Atime = 0, Ctime = 0, Mtime = 0\<rparr>"

definition ex_store :: s3 where
  "ex_store = \<lparr>objects = Map.empty, calls = [],
               upload_fault = (\<lambda>h k. None), download_fault = (\<lambda>h k. None)\<rparr>"

definition ex_extent :: Extent where
  "ex_extent =
     \<lparr>Extent.Key = ''old'', body = [1, 2, 3, 4, 5, 6, 7, 8, 9, 10], Extent.dirty = True\<rparr>"

definition ex_file :: File where
  "ex_file = \<lparr>File.Key = ''file'', Meta = ex_meta, ExtentSize = 4096,
              Extent = [0 \<mapsto> ex_extent], dirty = True\<rparr>"

text \<open>
  A file with two dirty one-byte extents, and a store in which every write under the
  content address of the first extent's body fails.
\<close>

definition ex_faulty :: s3 where
  "ex_faulty = \<lparr>objects = Map.empty, calls = [],
                upload_fault = (\<lambda>h k. if k = KeyGen ex_sess [1] then Some (Failure ''io'') else None),
                download_fault = (\<lambda>h k. None)\<rparr>"

definition ex_file2 :: File where
  "ex_file2 = \<lparr>File.Key = ''file'', Meta = ex_meta, ExtentSize = 4096,
               Extent = [0 \<mapsto> \<lparr>Extent.Key = ''stale-a'', body = [1], Extent.dirty = True\<rparr>,
                         1 \<mapsto> \<lparr>Extent.Key = ''stale-b'', body = [2], Extent.dirty = True\<rparr>],
               dirty = True\<rparr>"

text \<open>A file with two dirty extents whose bodies are identical.\<close>

definition ex_twins :: File where
  "ex_twins = \<lparr>File.Key = ''file'', Meta = ex_meta, ExtentSize = 4096,
               Extent = [0 \<mapsto> \<lparr>Extent.Key = ''stale-a'', body = [7], Extent.dirty = True\<rparr>,
                         1 \<mapsto> \<lparr>Extent.Key = ''stale-b'', body = [7], Extent.dirty = True\<rparr>],
               dirty = True\<rparr>"

section \<open>Claims about Extent.Fill\<close>

lemmas ex_defs = ex_sess_def ex_meta_def ex_store_def ex_extent_def ex_file_def
  ex_faulty_def ex_file2_def ex_twins_def

lemmas Save_defs = Save_init_def Save_task_def Save_caller_def set_task_def all_done_def
  CurrentKey_def IsExist_def Upload_def UploadWithCache_def File_json_def


lemma Download_calls:
  "calls (snd (Download key st)) = calls st @ [CallDownload key]"
  by (simp add: Download_def split: option.splits)

text \<open>
  C9: for every extent whose dirty flag is true, \<open>Fill\<close> returns success without
  contacting the store, also when the body is empty: the extent and the store (its
  objects and its record of calls) are returned as they were.
\<close>

theorem Fill_dirty_skips_store:
  "Extent.dirty e \<Longrightarrow> Fill e st = (None, e, st)"
  by (simp add: Fill_def)

theorem Fill_dirty_skips_store_witness:
  "Extent.dirty \<lparr>Extent.Key = ''k'', body = [], Extent.dirty = True\<rparr> \<and>
   Fill \<lparr>Extent.Key = ''k'', body = [], Extent.dirty = True\<rparr>
        \<lparr>objects = Map.empty, calls = [],
         upload_fault = (\<lambda>h k. None), download_fault = (\<lambda>h k. None)\<rparr>
     = (None, \<lparr>Extent.Key = ''k'', body = [], Extent.dirty = True\<rparr>,
        \<lparr>objects = Map.empty, calls = [],
         upload_fault = (\<lambda>h k. None), download_fault = (\<lambda>h k. None)\<rparr>)"
  using Fill_dirty_skips_store
    [of "\<lparr>Extent.Key = ''k'', body = [], Extent.dirty = True\<rparr>"
        "\<lparr>objects = Map.empty, calls = [],
          upload_fault = (\<lambda>h k. None), download_fault = (\<lambda>h k. None)\<rparr>"]
  by simp

text \<open>
  C7: when \<open>Fill\<close> performs a download (the extent is clean and its body empty) and the
  store returns an error, \<open>Fill\<close> returns that error and leaves the extent as it was
  (body empty, dirty flag false); a missing object gives the not-found error when the
  read itself does not fail; and a further \<open>Fill\<close> of the extent calls \<open>Download\<close> again.
\<close>

theorem Fill_download_error:
  assumes "\<not> Extent.dirty e" and "body e = []"
    and "Download (Extent.Key e) st = (Inl err, st')"
  shows "Fill e st = (Some err, e, st') \<and>
         (objects st (Extent.Key e) = None \<and>
          download_fault st (calls st) (Extent.Key e) = None \<longrightarrow> err = NotFound) \<and>
         calls (snd (snd (Fill e st'))) = calls st' @ [CallDownload (Extent.Key e)]"
proof (intro conjI impI)
  show "Fill e st = (Some err, e, st')"
    using assms by (simp add: Fill_def)
  show "err = NotFound"
    if "objects st (Extent.Key e) = None \<and> download_fault st (calls st) (Extent.Key e) = None"
    using that assms(3) by (simp add: Download_def)
  have "snd (snd (Fill e st')) = snd (Download (Extent.Key e) st')"
    using assms(1,2) by (simp add: Fill_def split: prod.splits sum.splits)
  then show "calls (snd (snd (Fill e st'))) = calls st' @ [CallDownload (Extent.Key e)]"
    by (simp add: Download_calls)
qed

theorem Fill_download_error_witness:
  "Fill \<lparr>Extent.Key = ''k'', body = [], Extent.dirty = False\<rparr>
        \<lparr>objects = Map.empty, calls = [],
         upload_fault = (\<lambda>h k. None), download_fault = (\<lambda>h k. None)\<rparr>
     = (Some NotFound, \<lparr>Extent.Key = ''k'', body = [], Extent.dirty = False\<rparr>,
        \<lparr>objects = Map.empty, calls = [CallDownload ''k''],
         upload_fault = (\<lambda>h k. None), download_fault = (\<lambda>h k. None)\<rparr>) \<and>
   calls (snd (snd (Fill \<lparr>Extent.Key = ''k'', body = [], Extent.dirty = False\<rparr>
        \<lparr>objects = Map.empty, calls = [CallDownload ''k''],
         upload_fault = (\<lambda>h k. None), download_fault = (\<lambda>h k. None)\<rparr>)))
     = [CallDownload ''k'', CallDownload ''k'']"
  using Fill_download_error
    [of "\<lparr>Extent.Key = ''k'', body = [], Extent.dirty = False\<rparr>"
        "\<lparr>objects = Map.empty, calls = [],
          upload_fault = (\<lambda>h k. None), download_fault = (\<lambda>h k. None)\<rparr>"
        NotFound
        "\<lparr>objects = Map.empty, calls = [CallDownload ''k''],
          upload_fault = (\<lambda>h k. None), download_fault = (\<lambda>h k. None)\<rparr>"]
  by (simp add: Download_def)

text \<open>
  C6 as stated fails: an extent that is clean and whose stored object has length zero is
  downloaded by the first \<open>Fill\<close> and downloaded again by the second, because the guard
  of \<open>Fill\<close> takes an empty body for one that was never loaded.
\<close>

theorem Fill_twice_counterexample:
  "Fill \<lparr>Extent.Key = ''k'', body = [], Extent.dirty = False\<rparr>
        \<lparr>objects = [''k'' \<mapsto> Raw []], calls = [],
         upload_fault = (\<lambda>h k. None), download_fault = (\<lambda>h k. None)\<rparr>
     = (None, \<lparr>Extent.Key = ''k'', body = [], Extent.dirty = False\<rparr>,
        \<lparr>objects = [''k'' \<mapsto> Raw []], calls = [CallDownload ''k''],
         upload_fault = (\<lambda>h k. None), download_fault = (\<lambda>h k. None)\<rparr>) \<and>
   Fill \<lparr>Extent.Key = ''k'', body = [], Extent.dirty = False\<rparr>
        \<lparr>objects = [''k'' \<mapsto> Raw []], calls = [CallDownload ''k''],
         upload_fault = (\<lambda>h k. None), download_fault = (\<lambda>h k. None)\<rparr>
     = (None, \<lparr>Extent.Key = ''k'', body = [], Extent.dirty = False\<rparr>,
        \<lparr>objects = [''k'' \<mapsto> Raw []], calls = [CallDownload ''k'', CallDownload ''k''],
         upload_fault = (\<lambda>h k. None), download_fault = (\<lambda>h k. None)\<rparr>)"
  by (simp add: Fill_def Download_def)

text \<open>
  C6, amended: whenever the first \<open>Fill\<close> leaves the extent dirty or with a non-empty
  body (it was already filled, or a non-empty object was downloaded), a second \<open>Fill\<close>
  returns success, makes no store call and leaves the extent, hence the body, as the
  first call left it.
\<close>

theorem Fill_idempotent:
  "Fill e st = (r, e1, st1) \<Longrightarrow> Extent.dirty e1 \<or> body e1 \<noteq> [] \<Longrightarrow>
     Fill e1 st1 = (None, e1, st1)"
  by (auto simp: Fill_def)

theorem Fill_idempotent_witness:
  "Fill \<lparr>Extent.Key = ''k'', body = [], Extent.dirty = False\<rparr>
        \<lparr>objects = [''k'' \<mapsto> Raw [1, 2]], calls = [],
         upload_fault = (\<lambda>h k. None), download_fault = (\<lambda>h k. None)\<rparr>
     = (None, \<lparr>Extent.Key = ''k'', body = [1, 2], Extent.dirty = False\<rparr>,
        \<lparr>objects = [''k'' \<mapsto> Raw [1, 2]], calls = [CallDownload ''k''],
         upload_fault = (\<lambda>h k. None), download_fault = (\<lambda>h k. None)\<rparr>) \<and>
   Fill \<lparr>Extent.Key = ''k'', body = [1, 2], Extent.dirty = False\<rparr>
        \<lparr>objects = [''k'' \<mapsto> Raw [1, 2]], calls = [CallDownload ''k''],
         upload_fault = (\<lambda>h k. None), download_fault = (\<lambda>h k. None)\<rparr>
     = (None, \<lparr>Extent.Key = ''k'', body = [1, 2], Extent.dirty = False\<rparr>,
        \<lparr>objects = [''k'' \<mapsto> Raw [1, 2]], calls = [CallDownload ''k''],
         upload_fault = (\<lambda>h k. None), download_fault = (\<lambda>h k. None)\<rparr>)"
proof -
  have first: "Fill \<lparr>Extent.Key = ''k'', body = [], Extent.dirty = False\<rparr>
        \<lparr>objects = [''k'' \<mapsto> Raw [1, 2]], calls = [],
         upload_fault = (\<lambda>h k. None), download_fault = (\<lambda>h k. None)\<rparr>
     = (None, \<lparr>Extent.Key = ''k'', body = [1, 2], Extent.dirty = False\<rparr>,
        \<lparr>objects = [''k'' \<mapsto> Raw [1, 2]], calls = [CallDownload ''k''],
         upload_fault = (\<lambda>h k. None), download_fault = (\<lambda>h k. None)\<rparr>)"
    by (simp add: Fill_def Download_def)
  from Fill_idempotent[OF first] first show ?thesis by simp
qed

section \<open>The invariant of File.Save\<close>

lemma new_calls_init [simp]: "new_calls st (Save_init f st) = []"
  by (simp add: new_calls_def Save_init_def)

lemma Save_inv_init: "Save_inv sess f st (Save_init f st)"
  unfolding Save_inv_def
proof (intro conjI)
  show "frame_ok sess f st (Save_init f st)"
    by (auto simp: frame_ok_def slot_ok_def task_ok_def Save_init_def split: option.splits)
  show "store_ok sess f st (Save_init f st)"
    by (simp add: store_ok_def) (simp add: Save_init_def)
  show "caller_ok sess f st (Save_init f st)"
    by (auto simp: caller_ok_def no_cache_upload_def Save_init_def new_calls_def)
qed

lemma task_ok_mono:
  assumes "task_ok sess st s e0 e t"
    "set (new_calls st s) \<subseteq> set (new_calls st s')"
    "caller s \<noteq> Select \<Longrightarrow> caller s' = caller s"
  shows "task_ok sess st s' e0 e t"
  using assms by (cases t) (auto simp: task_ok_def)

lemma slot_ok_mono:
  assumes "slot_ok sess st s x0 x t"
    "set (new_calls st s) \<subseteq> set (new_calls st s')"
    "caller s \<noteq> Select \<Longrightarrow> caller s' = caller s"
  shows "slot_ok sess st s' x0 x t"
  using assms by (auto simp: slot_ok_def split: option.splits intro: task_ok_mono)

lemma new_calls_append:
  "calls (store s) = calls st @ new_calls st s \<Longrightarrow> calls (store s') = calls (store s) @ cs \<Longrightarrow>
     new_calls st s' = new_calls st s @ cs"
proof -
  assume a: "calls (store s) = calls st @ new_calls st s"
    and b: "calls (store s') = calls (store s) @ cs"
  from a have "length (calls st) \<le> length (calls (store s))"
    by (metis le_add1 length_append)
  with b show ?thesis by (simp add: new_calls_def)
qed

lemma new_calls_same:
  "calls (store s') = calls (store s) \<Longrightarrow> new_calls st s' = new_calls st s"
  by (simp add: new_calls_def)

text \<open>What one step does to the parts of the state a goroutine does not own.\<close>

lemma task_step_others:
  "task_step sess i e t s = Some s' \<Longrightarrow> j \<noteq> i \<Longrightarrow>
     Extent (o_file s') j = Extent (o_file s) j \<and> tasks s' j = tasks s j"
  by (cases t) (auto simp: set_task_def split: if_splits prod.splits option.splits)

lemma task_step_file:
  "task_step sess i e t s = Some s' \<Longrightarrow>
     o_file s' = (o_file s)\<lparr>Extent := Extent (o_file s')\<rparr>"
  by (cases t) (auto simp: set_task_def split: if_splits prod.splits option.splits)

lemma task_step_caller:
  "task_step sess i e t s = Some s' \<Longrightarrow> caller s \<noteq> Select \<Longrightarrow> caller s' = caller s"
  by (cases t) (auto simp: set_task_def split: if_splits prod.splits option.splits)

lemma task_step_calls:
  "task_step sess i e t s = Some s' \<Longrightarrow>
     \<exists>cs. calls (store s') = calls (store s) @ cs \<and> no_cache_upload cs"
  by (cases t)
     (auto simp: set_task_def IsExist_def Upload_def no_cache_upload_def
           split: if_splits prod.splits option.splits)

lemma task_step_new_calls:
  assumes "task_step sess i e t s = Some s'" "calls (store s) = calls st @ new_calls st s"
  shows "\<exists>cs. new_calls st s' = new_calls st s @ cs \<and> no_cache_upload cs"
  using task_step_calls[OF assms(1)] new_calls_append[OF assms(2)] by blast


lemma task_ok_same:
  "task_ok sess st s e0 e t \<Longrightarrow> Extent.Key e = Extent.Key e0 \<and> body e = body e0"
  by (cases t) (auto simp: task_ok_def)

lemma task_ok_dirty:
  "task_ok sess st s e0 e t \<Longrightarrow> e = e0 \<or> (Extent.dirty e0 \<and> e = e0\<lparr>Extent.dirty := False\<rparr>)"
  by (cases t) (auto simp: task_ok_def)

lemma File_json_frame:
  assumes "frame_ok sess f st s"
  shows "File_json (o_file s) = File_json f" and "File.Key (o_file s) = File.Key f"
proof -
  have fr: "o_file s = f\<lparr>Extent := Extent (o_file s)\<rparr>"
    using assms by (simp add: frame_ok_def)
  have keys: "map_option Extent.Key (Extent (o_file s) i) = map_option Extent.Key (Extent f i)" for i
  proof -
    have "slot_ok sess st s (Extent f i) (Extent (o_file s) i) (tasks s i)"
      using assms by (simp add: frame_ok_def)
    then show ?thesis
      by (cases "Extent f i") (auto simp: slot_ok_def dest: task_ok_same)
  qed
  from fr have k: "File.Key (o_file s) = File.Key f" "File.Meta (o_file s) = File.Meta f"
    "ExtentSize (o_file s) = ExtentSize f"
    by (metis File.select_convs File.surjective File.update_convs(4))+
  from k(1) show "File.Key (o_file s) = File.Key f" .
  from k keys show "File_json (o_file s) = File_json f"
    by (simp add: File_json_def)
qed

lemma unfinished_no_cache_upload:
  assumes "caller_ok sess f st s" "tasks s i = Some t" "t \<noteq> Finished"
  shows "no_cache_upload (new_calls st s)"
proof (cases "caller s")
  case Select
  with assms(1) show ?thesis by (simp add: caller_ok_def)
next
  case (Returned r)
  from assms(2,3) have "\<not> all_done s" by (auto simp: all_done_def)
  with Returned assms(1) show ?thesis
    by (auto simp: caller_ok_def split: if_splits)
qed

lemma task_step_self:
  assumes step: "task_step sess i e t s = Some s'"
    and t: "tasks s i = Some t" and e: "Extent (o_file s) i = Some e"
    and ok: "task_ok sess st s e0 e t"
    and st: "store_ok sess f st s" and c: "caller_ok sess f st s"
  shows "\<exists>e' t'. Extent (o_file s') i = Some e' \<and> tasks s' i = Some t' \<and>
           task_ok sess st s' e0 e' t'"
proof (cases t)
  case Start
  with step ok show ?thesis
    by (auto simp: set_task_def task_ok_def e split: if_splits)
next
  case (Exist k)
  have ncu: "no_cache_upload (new_calls st s)"
    using unfinished_no_cache_upload[OF c t] Exist by simp
  let ?s1 = "s\<lparr>store := (store s)\<lparr>calls := calls (store s) @ [CallIsExist k]\<rparr>\<rparr>"
  have nc: "new_calls st ?s1 = new_calls st s @ [CallIsExist k]"
    using st by (intro new_calls_append) (simp_all add: store_ok_def)
  show ?thesis
  proof (cases "objects (store s) k = None")
    case True
    with st have "objects st k = None" by (auto simp: store_ok_def)
    with step ok Exist True show ?thesis
      by (auto simp: set_task_def task_ok_def e IsExist_def)
  next
    case False
    with st ncu have "objects st k \<noteq> None \<or> (\<exists>b. CallUpload k b \<in> set (new_calls st s))"
      unfolding store_ok_def no_cache_upload_def by blast
    moreover from False st have "objects st k \<noteq> None \<or> (\<exists>h. upload_fault st h k = None)"
      unfolding store_ok_def by blast
    ultimately show ?thesis using step ok Exist False nc
      by (auto simp: set_task_def task_ok_def e IsExist_def new_calls_def)
  qed
next
  case (Uploading k)
  let ?c = "CallUpload k (Raw (body e))"
  have uf: "upload_fault (store s) = upload_fault st" using st by (simp add: store_ok_def)
  have cl: "calls (store s) = calls st @ new_calls st s" using st by (simp add: store_ok_def)
  have nc: "calls (store s') = calls (store s) @ [?c]"
    using step Uploading by (auto simp: set_task_def Upload_def split: option.splits)
  have nc': "new_calls st s' = new_calls st s @ [?c]"
    using new_calls_append[OF cl nc] .
  from step Uploading ok uf nc' show ?thesis
    by (auto simp: set_task_def task_ok_def e Upload_def split: option.splits)
next
  case (Sending err)
  with step ok show ?thesis
    by (auto simp: set_task_def task_ok_def e new_calls_def split: if_splits)
next
  case Clearing
  with step ok show ?thesis
    by (auto simp: set_task_def task_ok_def e new_calls_def split: if_splits)
next
  case Finished
  with step show ?thesis by simp
next
  case Abandoned
  with step show ?thesis by simp
qed


lemma task_step_store:
  assumes step: "task_step sess i e t s = Some s'"
    and e0: "Extent f i = Some e0"
    and ok: "task_ok sess st s e0 e t"
    and st: "store_ok sess f st s"
  shows "store_ok sess f st s'"
proof (cases t)
  case Start
  with step have "store s' = store s" by (auto simp: set_task_def split: if_splits)
  with st show ?thesis by (simp add: store_ok_def new_calls_def)
next
  case (Exist k)
  have cl: "calls (store s) = calls st @ new_calls st s" using st by (simp add: store_ok_def)
  from step Exist have s': "store s' = (store s)\<lparr>calls := calls (store s) @ [CallIsExist k]\<rparr>"
    by (auto simp: set_task_def IsExist_def)
  then have nc: "new_calls st s' = new_calls st s @ [CallIsExist k]"
    using new_calls_append[OF cl, of s'] by simp
  from st show ?thesis
    unfolding store_ok_def nc using cl by (auto simp: s')
next
  case (Uploading k)
  let ?c = "CallUpload k (Raw (body e))"
  have cl: "calls (store s) = calls st @ new_calls st s" using st by (simp add: store_ok_def)
  have uf: "upload_fault (store s) = upload_fault st" using st by (simp add: store_ok_def)
  from ok Uploading have k: "e = e0" "Extent.dirty e0" "k = CurrentKey sess e0" "objects st k = None"
    by (auto simp: task_ok_def)
  show ?thesis
  proof (cases "upload_fault (store s) (calls (store s)) k")
    case None
    with step Uploading
    have s': "store s' = (store s)\<lparr>objects := (objects (store s))(k \<mapsto> Raw (body e)),
                                   calls := calls (store s) @ [?c]\<rparr>"
      by (auto simp: set_task_def Upload_def)
    then have nc: "new_calls st s' = new_calls st s @ [?c]"
      using new_calls_append[OF cl, of s'] by simp
    from None uf have "\<exists>h. upload_fault st h k = None" by auto
    with st k e0 show ?thesis
      unfolding store_ok_def nc using cl by (auto simp: s')
  next
    case (Some err)
    with step Uploading
    have s': "store s' = (store s)\<lparr>calls := calls (store s) @ [?c]\<rparr>"
      by (auto simp: set_task_def Upload_def)
    then have nc: "new_calls st s' = new_calls st s @ [?c]"
      using new_calls_append[OF cl, of s'] by simp
    from st k e0 show ?thesis
      unfolding store_ok_def nc using cl by (auto simp: s')
  qed
next
  case (Sending err)
  with step have "store s' = store s" by (auto simp: set_task_def split: if_splits)
  with st show ?thesis by (simp add: store_ok_def new_calls_def)
next
  case Clearing
  with step have "store s' = store s" by (auto simp: set_task_def split: if_splits)
  with st show ?thesis by (simp add: store_ok_def new_calls_def)
next
  case Finished
  with step show ?thesis by simp
next
  case Abandoned
  with step show ?thesis by simp
qed


lemma task_step_target:
  "task_step sess i e t s = Some s' \<Longrightarrow>
     (\<exists>t'. tasks s' i = Some t' \<and>
        (t' = Abandoned \<longrightarrow> (\<exists>err. t = Sending err \<and> caller s = Select \<and>
                                   caller s' = Returned (Some err))) \<and>
        (t' \<noteq> Abandoned \<longrightarrow> caller s' = caller s))"
  by (cases t) (auto simp: set_task_def split: if_splits prod.splits option.splits)

lemma task_step_caller_ok:
  assumes step: "task_step sess i e t s = Some s'"
    and t: "tasks s i = Some t"
    and st: "store_ok sess f st s" and c: "caller_ok sess f st s"
  shows "caller_ok sess f st s'"
proof -
  have cl: "calls (store s) = calls st @ new_calls st s" using st by (simp add: store_ok_def)
  from task_step_new_calls[OF step cl] obtain cs where
    cs: "new_calls st s' = new_calls st s @ cs" "no_cache_upload cs" by blast
  have ncu: "no_cache_upload (new_calls st s')"
    if "no_cache_upload (new_calls st s)"
    using that cs by (auto simp: no_cache_upload_def)
  have others: "tasks s' j = tasks s j" if "j \<noteq> i" for j
    using task_step_others[OF step that] by simp
  from step have unf: "t \<noteq> Finished" "t \<noteq> Abandoned" by auto
  from task_step_target[OF step] obtain t' where
    t': "tasks s' i = Some t'"
      "t' = Abandoned \<Longrightarrow> \<exists>err. t = Sending err \<and> caller s = Select \<and> caller s' = Returned (Some err)"
      "t' \<noteq> Abandoned \<Longrightarrow> caller s' = caller s"
    by blast
  have ncu0: "no_cache_upload (new_calls st s)"
    using unfinished_no_cache_upload[OF c t unf(1)] .
  show ?thesis
  proof (cases "t' = Abandoned")
    case True
    with t'(2) obtain err where "caller s' = Returned (Some err)" by blast
    moreover have "\<exists>j. tasks s' j = Some Abandoned" using t'(1) True by blast
    ultimately show ?thesis using ncu[OF ncu0] by (simp add: caller_ok_def)
  next
    case False
    with t'(3) have cs': "caller s' = caller s" by simp
    have ab: "(\<exists>j. tasks s' j = Some Abandoned) = (\<exists>j. tasks s j = Some Abandoned)"
    proof
      assume "\<exists>j. tasks s' j = Some Abandoned"
      then obtain j where j: "tasks s' j = Some Abandoned" ..
      with t'(1) False have "j \<noteq> i" by auto
      from others[OF this] j have "tasks s j = Some Abandoned" by simp
      then show "\<exists>j. tasks s j = Some Abandoned" by blast
    next
      assume "\<exists>j. tasks s j = Some Abandoned"
      then obtain j where j: "tasks s j = Some Abandoned" ..
      with t unf have "j \<noteq> i" by auto
      from others[OF this] j have "tasks s' j = Some Abandoned" by simp
      then show "\<exists>j. tasks s' j = Some Abandoned" by blast
    qed
    have nd: "\<not> all_done s" using t unf by (auto simp: all_done_def)
    show ?thesis
    proof (cases "caller s")
      case Select
      with c cs' ab ncu[OF ncu0] show ?thesis by (simp add: caller_ok_def)
    next
      case (Returned r)
      with c nd have "\<exists>j. tasks s j = Some Abandoned" "r \<noteq> None"
        by (auto simp: caller_ok_def split: if_splits)
      with Returned cs' ab ncu[OF ncu0] show ?thesis by (simp add: caller_ok_def)
    qed
  qed
qed

lemma Save_task_inv:
  assumes step: "Save_task sess i s = Some s'" and inv: "Save_inv sess f st s"
  shows "Save_inv sess f st s'"
proof -
  from step obtain t e where t: "tasks s i = Some t" and e: "Extent (o_file s) i = Some e"
    and ts: "task_step sess i e t s = Some s'"
    by (auto simp: Save_task_def split: option.splits)
  from inv have fr: "frame_ok sess f st s" and st: "store_ok sess f st s"
    and c: "caller_ok sess f st s"
    by (simp_all add: Save_inv_def)
  from fr have "slot_ok sess st s (Extent f i) (Extent (o_file s) i) (tasks s i)"
    by (simp add: frame_ok_def)
  with t e obtain e0 where e0: "Extent f i = Some e0" and ok: "task_ok sess st s e0 e t"
    by (auto simp: slot_ok_def split: option.splits)
  have cl: "calls (store s) = calls st @ new_calls st s" using st by (simp add: store_ok_def)
  from task_step_new_calls[OF ts cl] have sub: "set (new_calls st s) \<subseteq> set (new_calls st s')"
    by auto
  have 1: "o_file s' = f\<lparr>Extent := Extent (o_file s')\<rparr>"
  proof -
    have "o_file s = f\<lparr>Extent := Extent (o_file s)\<rparr>" using fr by (simp add: frame_ok_def)
    with task_step_file[OF ts] show ?thesis
      by (metis File.update_convs(4) File.surjective)
  qed
  have 2: "slot_ok sess st s' (Extent f j) (Extent (o_file s') j) (tasks s' j)" for j
  proof (cases "j = i")
    case False
    have "slot_ok sess st s (Extent f j) (Extent (o_file s) j) (tasks s j)"
      using fr by (simp add: frame_ok_def)
    then have "slot_ok sess st s' (Extent f j) (Extent (o_file s) j) (tasks s j)"
      using sub task_step_caller[OF ts] by (rule slot_ok_mono)
    with task_step_others[OF ts False] show ?thesis by simp
  next
    case True
    with task_step_self[OF ts t e ok st c] e0 show ?thesis
      by (simp add: slot_ok_def)
  qed
  from 1 2 have "frame_ok sess f st s'" by (simp add: frame_ok_def)
  moreover have "store_ok sess f st s'" using ts e0 ok st by (rule task_step_store)
  moreover have "caller_ok sess f st s'" using ts t st c by (rule task_step_caller_ok)
  ultimately show ?thesis by (simp add: Save_inv_def)
qed


lemma Save_caller_inv:
  assumes step: "Save_caller sess s = Some s'" and inv: "Save_inv sess f st s"
  shows "Save_inv sess f st s'"
proof -
  from inv have fr: "frame_ok sess f st s" and st: "store_ok sess f st s"
    and c: "caller_ok sess f st s"
    by (simp_all add: Save_inv_def)
  from step have sel: "caller s = Select" and ad: "all_done s"
    by (auto simp: Save_caller_def split: if_splits)
  from c sel have noab: "\<And>i. tasks s i \<noteq> Some Abandoned"
    and ncu: "no_cache_upload (new_calls st s)"
    by (simp_all add: caller_ok_def)
  have cl: "calls (store s) = calls st @ new_calls st s" using st by (simp add: store_ok_def)
  have fj: "File_json (o_file s) = File_json f" and fk: "File.Key (o_file s) = File.Key f"
    using File_json_frame[OF fr] by simp_all
  let ?K = "File.Key f"
  show ?thesis
  proof (cases "json_Marshal sess (File_json f)")
    case (Inl err)
    with step sel ad fj have s': "s' = s\<lparr>caller := Returned (Some err)\<rparr>"
      by (simp add: Save_caller_def)
    have nc: "new_calls st s' = new_calls st s" by (simp add: s' new_calls_def)
    have "frame_ok sess f st s'"
      unfolding frame_ok_def
    proof (intro conjI allI)
      show "o_file s' = f\<lparr>Extent := Extent (o_file s')\<rparr>"
        using fr by (simp add: s' frame_ok_def)
      fix i
      have "slot_ok sess st s (Extent f i) (Extent (o_file s) i) (tasks s i)"
        using fr by (simp add: frame_ok_def)
      then have "slot_ok sess st s' (Extent f i) (Extent (o_file s) i) (tasks s i)"
        by (rule slot_ok_mono) (auto simp: nc sel)
      then show "slot_ok sess st s' (Extent f i) (Extent (o_file s') i) (tasks s' i)"
        by (simp add: s')
    qed
    moreover have "store_ok sess f st s'"
      using st unfolding store_ok_def nc by (simp add: s')
    moreover have "caller_ok sess f st s'"
      using noab ncu ad Inl unfolding caller_ok_def nc by (simp add: s' all_done_def)
    ultimately show ?thesis by (simp add: Save_inv_def)
  next
    case (Inr result)
    let ?b = "Encoded (File_json f) result"
    let ?c = "CallUploadWithCache ?K ?b"
    obtain r st' where up: "UploadWithCache ?K ?b (store s) = (r, st')"
      by (cases "UploadWithCache ?K ?b (store s)")
    with step sel ad fj fk Inr have s': "s' = s\<lparr>store := st', caller := Returned r\<rparr>"
      by (simp add: Save_caller_def)
    from up have calls': "calls st' = calls (store s) @ [?c]"
      by (auto simp: UploadWithCache_def split: if_splits option.splits)
    have nc: "new_calls st s' = new_calls st s @ [?c]"
      using new_calls_append[OF cl, of s' "[?c]"] calls' by (simp add: s')
    from up have faults: "upload_fault st' = upload_fault (store s)"
      "download_fault st' = download_fault (store s)"
      by (auto simp: UploadWithCache_def split: if_splits option.splits)
    from up have objs: "objects st' = objects (store s) \<or>
        (objects (store s) ?K = None \<and> upload_fault (store s) (calls (store s)) ?K = None \<and>
         r = None \<and> objects st' = (objects (store s))(?K \<mapsto> ?b))"
      by (auto simp: UploadWithCache_def split: if_splits option.splits)
    from up have rnone: "r = None \<Longrightarrow> objects st' ?K = Some ?b \<or> objects (store s) ?K \<noteq> None"
      by (auto simp: UploadWithCache_def split: if_splits option.splits)
    have "frame_ok sess f st s'"
      unfolding frame_ok_def
    proof (intro conjI allI)
      show "o_file s' = f\<lparr>Extent := Extent (o_file s')\<rparr>"
        using fr by (simp add: s' frame_ok_def)
      fix i
      have "slot_ok sess st s (Extent f i) (Extent (o_file s) i) (tasks s i)"
        using fr by (simp add: frame_ok_def)
      then have "slot_ok sess st s' (Extent f i) (Extent (o_file s) i) (tasks s i)"
        by (rule slot_ok_mono) (auto simp: nc sel)
      then show "slot_ok sess st s' (Extent f i) (Extent (o_file s') i) (tasks s' i)"
        by (simp add: s')
    qed
    moreover have "store_ok sess f st s'"
    proof -
      have st1: "upload_fault (store s) = upload_fault st" "download_fault (store s) = download_fault st"
        using st by (simp_all add: store_ok_def)
      from objs show ?thesis
      proof
        assume "objects st' = objects (store s)"
        with st faults calls' show ?thesis
          unfolding store_ok_def nc using cl by (auto simp: s')
      next
        assume a: "objects (store s) ?K = None \<and> upload_fault (store s) (calls (store s)) ?K = None \<and>
           r = None \<and> objects st' = (objects (store s))(?K \<mapsto> ?b)"
        then have "\<exists>h. upload_fault st h ?K = None" using st1 by auto
        with a st faults calls' show ?thesis
          unfolding store_ok_def nc using cl by (auto simp: s')
      qed
    qed
    moreover have "caller_ok sess f st s'"
    proof -
      have "objects (store s) ?K \<noteq> None \<Longrightarrow>
              objects st ?K \<noteq> None \<or> (\<exists>b. CallUpload ?K b \<in> set (new_calls st s))"
        using st ncu unfolding store_ok_def no_cache_upload_def by blast
      with rnone have "r = None \<Longrightarrow> objects st' ?K = Some ?b \<or> objects st ?K \<noteq> None \<or>
          (\<exists>b. CallUpload ?K b \<in> set (new_calls st s))"
        by blast
      with noab ncu ad Inr show ?thesis
        unfolding caller_ok_def nc by (auto simp: s' all_done_def)
    qed
    ultimately show ?thesis by (simp add: Save_inv_def)
  qed
qed

lemma Save_step_inv:
  "Save_step sess a s = Some s' \<Longrightarrow> Save_inv sess f st s \<Longrightarrow> Save_inv sess f st s'"
  by (cases a) (auto intro: Save_task_inv Save_caller_inv)

lemma Save_run_inv:
  "Save_run sess sched s = Some s' \<Longrightarrow> Save_inv sess f st s \<Longrightarrow> Save_inv sess f st s'"
  by (induction sched arbitrary: s) (auto split: option.splits dest: Save_step_inv)

lemma Save_reach_inv:
  "Save_run sess sched (Save_init f st) = Some s \<Longrightarrow> Save_inv sess f st s"
  using Save_run_inv Save_inv_init by blast


lemma Save_extent_effect:
  assumes "Save_run sess sched (Save_init f st) = Some s" and "Extent f i = Some e0"
  shows "\<exists>e. Extent (o_file s) i = Some e \<and>
           (e = e0 \<or>
            (Extent.dirty e0 \<and> e = e0\<lparr>Extent.dirty := False\<rparr> \<and>
             (\<exists>h. upload_fault st h (CurrentKey sess e0) = None) \<and>
             CallUpload (CurrentKey sess e0) (Raw (body e0)) \<in> set (new_calls st s)))"
proof -
  from Save_reach_inv[OF assms(1)]
  have "slot_ok sess st s (Extent f i) (Extent (o_file s) i) (tasks s i)"
    by (simp add: Save_inv_def frame_ok_def)
  with assms(2) obtain e t where e: "Extent (o_file s) i = Some e" "task_ok sess st s e0 e t"
    by (auto simp: slot_ok_def)
  from e(2) have "e = e0 \<or>
            (Extent.dirty e0 \<and> e = e0\<lparr>Extent.dirty := False\<rparr> \<and>
             (\<exists>h. upload_fault st h (CurrentKey sess e0) = None) \<and>
             CallUpload (CurrentKey sess e0) (Raw (body e0)) \<in> set (new_calls st s))"
    by (cases t) (auto simp: task_ok_def)
  with e(1) show ?thesis by blast
qed

lemma Save_extent_dom:
  assumes "Save_run sess sched (Save_init f st) = Some s" and "Extent f i = None"
  shows "Extent (o_file s) i = None"
proof -
  from Save_reach_inv[OF assms(1)]
  have "slot_ok sess st s (Extent f i) (Extent (o_file s) i) (tasks s i)"
    by (simp add: Save_inv_def frame_ok_def)
  with assms(2) show ?thesis by (simp add: slot_ok_def)
qed

section \<open>The Key field is never written\<close>

text \<open>
  C10: no operation writes an extent's \<open>Key\<close> field. \<open>Fill\<close> returns the extent with the
  \<open>Key\<close> it was given; in every state of every run of \<open>File.Save\<close> (whatever the
  schedule, whether a body was uploaded, skipped as already stored, or its upload
  failed) each extent of the file has the \<open>Key\<close> it had when the call started, and no
  extent is added or removed. \<open>CurrentKey\<close> only computes a key: it returns no extent.
\<close>

theorem Key_never_written:
  "Extent.Key (fst (snd (Fill e st))) = Extent.Key e \<and>
   (Save_run sess sched (Save_init f st) = Some s \<longrightarrow>
      map_option Extent.Key (Extent (o_file s) i) = map_option Extent.Key (Extent f i))"
proof (intro conjI impI)
  show "Extent.Key (fst (snd (Fill e st))) = Extent.Key e"
    by (simp add: Fill_def split: prod.splits sum.splits)
  assume run: "Save_run sess sched (Save_init f st) = Some s"
  show "map_option Extent.Key (Extent (o_file s) i) = map_option Extent.Key (Extent f i)"
  proof (cases "Extent f i")
    case None
    with Save_extent_dom[OF run] show ?thesis by simp
  next
    case (Some e0)
    with Save_extent_effect[OF run] show ?thesis by fastforce
  qed
qed

theorem Key_never_written_witness:
  "Save_run ex_sess [Task 0, Task 0, Task 0, Task 0, Caller] (Save_init ex_file ex_store) \<noteq> None \<and>
   map_option Extent.Key
     (Extent (o_file (the (Save_run ex_sess [Task 0, Task 0, Task 0, Task 0, Caller]
        (Save_init ex_file ex_store)))) 0) = Some ''old''"
proof -
  have run: "Save_run ex_sess [Task 0, Task 0, Task 0, Task 0, Caller] (Save_init ex_file ex_store)
    = Some (the (Save_run ex_sess [Task 0, Task 0, Task 0, Task 0, Caller]
        (Save_init ex_file ex_store)))"
    by (simp add: ex_defs Save_defs)
  have "map_option Extent.Key (Extent ex_file 0) = Some ''old''"
    by (simp add: ex_defs)
  with run Key_never_written[where e = ex_extent and st = ex_store and sess = ex_sess
      and f = ex_file and i = 0 and sched = "[Task 0, Task 0, Task 0, Task 0, Caller]"]
  show ?thesis by auto
qed

section \<open>The clean-extent invariant\<close>

lemma Some_the_not_None: "x = Some (the x) \<Longrightarrow> x \<noteq> None"
  by auto

text \<open>
  C3 as stated fails for \<open>File.Save\<close>: the example extent is dirty with a stale \<open>Key\<close>, so
  the invariant holds of it; \<open>Save\<close> uploads its body under the content address and clears
  the dirty flag but leaves \<open>Key\<close> as it was, and the invariant no longer holds.
\<close>

theorem clean_matches_Save_counterexample:
  "clean_matches ex_sess ex_extent \<and>
   (case Save_run ex_sess [Task 0, Task 0, Task 0, Task 0, Caller] (Save_init ex_file ex_store) of
      None \<Rightarrow> False
    | Some s \<Rightarrow>
        caller s = Returned None \<and>
        (case Extent (o_file s) 0 of
           None \<Rightarrow> False
         | Some e \<Rightarrow> \<not> Extent.dirty e \<and> body e \<noteq> [] \<and> \<not> clean_matches ex_sess e))"
  by (simp add: ex_defs Save_defs clean_matches_def)

text \<open>
  C3, amended: \<open>Fill\<close> preserves the invariant whenever the object stored under the
  extent's \<open>Key\<close> (if any) is content-addressed by that key; \<open>File.Save\<close> preserves it, in
  every state of every run, for each extent that was not dirty or whose \<open>Key\<close> already
  was the content address of its body when the call started.
\<close>

theorem clean_matches_preserved:
  "(clean_matches sess e \<longrightarrow>
      (\<forall>b. objects st (Extent.Key e) = Some b \<longrightarrow> KeyGen sess (blob_bytes b) = Extent.Key e) \<longrightarrow>
      clean_matches sess (fst (snd (Fill e st)))) \<and>
   (Save_run sess sched (Save_init f st0) = Some s \<longrightarrow> Extent f i = Some e0 \<longrightarrow>
      clean_matches sess e0 \<longrightarrow> (\<not> Extent.dirty e0 \<or> CurrentKey sess e0 = Extent.Key e0) \<longrightarrow>
      (\<exists>e'. Extent (o_file s) i = Some e' \<and> clean_matches sess e'))"
proof (intro conjI impI)
  assume "clean_matches sess e"
    and "\<forall>b. objects st (Extent.Key e) = Some b \<longrightarrow> KeyGen sess (blob_bytes b) = Extent.Key e"
  then show "clean_matches sess (fst (snd (Fill e st)))"
    by (auto simp: Fill_def Download_def clean_matches_def CurrentKey_def
             split: option.splits)
next
  assume run: "Save_run sess sched (Save_init f st0) = Some s" and e0: "Extent f i = Some e0"
    and cm: "clean_matches sess e0"
    and k: "\<not> Extent.dirty e0 \<or> CurrentKey sess e0 = Extent.Key e0"
  from Save_extent_effect[OF run e0] obtain e' where
    e': "Extent (o_file s) i = Some e'"
      "e' = e0 \<or> (Extent.dirty e0 \<and> e' = e0\<lparr>Extent.dirty := False\<rparr>)"
    by blast
  from e'(2) cm k have "clean_matches sess e'"
    by (auto simp: clean_matches_def CurrentKey_def)
  with e'(1) show "\<exists>e'. Extent (o_file s) i = Some e' \<and> clean_matches sess e'" by blast
qed

theorem clean_matches_preserved_witness:
  "clean_matches ex_sess \<lparr>Extent.Key = KeyGen ex_sess [1, 2], body = [], Extent.dirty = False\<rparr> \<and>
   fst (snd (Fill \<lparr>Extent.Key = KeyGen ex_sess [1, 2], body = [], Extent.dirty = False\<rparr>
                  (ex_store\<lparr>objects := [KeyGen ex_sess [1, 2] \<mapsto> Raw [1, 2]]\<rparr>)))
     = \<lparr>Extent.Key = KeyGen ex_sess [1, 2], body = [1, 2], Extent.dirty = False\<rparr> \<and>
   clean_matches ex_sess \<lparr>Extent.Key = KeyGen ex_sess [1, 2], body = [1, 2], Extent.dirty = False\<rparr> \<and>
   Save_run ex_sess [Task 0, Task 0, Task 0, Task 0, Caller]
     (Save_init (ex_file\<lparr>Extent := [0 \<mapsto> ex_extent\<lparr>Extent.Key := CurrentKey ex_sess ex_extent\<rparr>]\<rparr>)
        ex_store) \<noteq> None \<and>
   (\<exists>e'. Extent (o_file (the (Save_run ex_sess [Task 0, Task 0, Task 0, Task 0, Caller]
     (Save_init (ex_file\<lparr>Extent := [0 \<mapsto> ex_extent\<lparr>Extent.Key := CurrentKey ex_sess ex_extent\<rparr>]\<rparr>)
        ex_store)))) 0 = Some e' \<and> \<not> Extent.dirty e' \<and> clean_matches ex_sess e')"
proof -
  let ?e = "\<lparr>Extent.Key = KeyGen ex_sess [1, 2], body = [], Extent.dirty = False\<rparr>"
  let ?st = "ex_store\<lparr>objects := [KeyGen ex_sess [1, 2] \<mapsto> Raw [1, 2]]\<rparr>"
  let ?x = "ex_extent\<lparr>Extent.Key := CurrentKey ex_sess ex_extent\<rparr>"
  let ?f = "ex_file\<lparr>Extent := [0 \<mapsto> ?x]\<rparr>"
  let ?sched = "[Task 0, Task 0, Task 0, Task 0, Caller]"
  have a: "clean_matches ex_sess ?e" by (simp add: clean_matches_def)
  have b: "\<forall>b. objects ?st (Extent.Key ?e) = Some b \<longrightarrow>
             KeyGen ex_sess (blob_bytes b) = Extent.Key ?e"
    by (simp add: ex_defs)
  have fill: "fst (snd (Fill ?e ?st))
     = \<lparr>Extent.Key = KeyGen ex_sess [1, 2], body = [1, 2], Extent.dirty = False\<rparr>"
    by (simp add: Fill_def Download_def ex_defs)
  have run: "Save_run ex_sess ?sched (Save_init ?f ex_store)
     = Some (the (Save_run ex_sess ?sched (Save_init ?f ex_store)))"
    by (simp add: ex_defs Save_defs)
  have fin: "map_option Extent.dirty
       (Extent (o_file (the (Save_run ex_sess ?sched (Save_init ?f ex_store)))) 0) = Some False"
    by (simp add: ex_defs Save_defs)
  have e0: "Extent ?f 0 = Some ?x" by simp
  have c: "clean_matches ex_sess ?x" by (simp add: clean_matches_def CurrentKey_def)
  have d: "\<not> Extent.dirty ?x \<or> CurrentKey ex_sess ?x = Extent.Key ?x"
    by (simp add: CurrentKey_def)
  note inst = clean_matches_preserved[where sess = ex_sess and e = ?e and st = ?st and f = ?f
      and st0 = ex_store and sched = ?sched and i = 0 and e0 = ?x
      and s = "the (Save_run ex_sess ?sched (Save_init ?f ex_store))"]
  from inst a b have 1: "clean_matches ex_sess (fst (snd (Fill ?e ?st)))" by blast
  from inst run e0 c d
  have 2: "\<exists>e'. Extent (o_file (the (Save_run ex_sess ?sched (Save_init ?f ex_store)))) 0 = Some e'
              \<and> clean_matches ex_sess e'"
    by blast
  from 2 fin
  have 3: "\<exists>e'. Extent (o_file (the (Save_run ex_sess ?sched (Save_init ?f ex_store)))) 0 = Some e'
              \<and> \<not> Extent.dirty e' \<and> clean_matches ex_sess e'"
    by auto
  have 4: "Save_run ex_sess ?sched (Save_init ?f ex_store) \<noteq> None"
    using run by (rule Some_the_not_None)
  show ?thesis using a fill 1[unfolded fill] 4 3 by (intro conjI) assumption+
qed

section \<open>Saving a file with one dirty extent\<close>

lemma Save_run_cases:
  "Save_run sess sched s = Some s' \<Longrightarrow>
     (sched = [] \<and> s' = s) \<or>
     (\<exists>a rest x. sched = a # rest \<and> Save_step sess a s = Some x \<and> Save_run sess rest x = Some s')"
  by (cases sched) (auto split: option.splits)

lemma Save_run_only:
  assumes "Save_run sess sched s = Some s'"
    and "\<And>a x. Save_step sess a s = Some x \<Longrightarrow> a = b \<and> x = s1"
  shows "(sched = [] \<and> s' = s) \<or> (\<exists>rest. sched = b # rest \<and> Save_run sess rest s1 = Some s')"
  using Save_run_cases[OF assms(1)] assms(2) by blast

lemma Save_step_stuck:
  assumes "Save_run sess sched s = Some s'" and "\<And>a. Save_step sess a s = None"
  shows "sched = [] \<and> s' = s"
  using Save_run_cases[OF assms(1)] assms(2) by auto


text \<open>
  C1 as stated fails: for the example file (one dirty ten-byte extent at index 0, body
  not in the store) \<open>Save\<close> uploads the body under its content address and clears the
  dirty flag, but the metadata record it then uploads holds the extent's old \<open>Key\<close>
  field, which is not the content address of the body.
\<close>

theorem Save_records_stale_key_counterexample:
  "(case Save_run ex_sess [Task 0, Task 0, Task 0, Task 0, Caller] (Save_init ex_file ex_store) of
      None \<Rightarrow> False
    | Some s \<Rightarrow>
        caller s = Returned None \<and>
        objects (store s) (CurrentKey ex_sess ex_extent) = Some (Raw (body ex_extent)) \<and>
        map_option Extent.dirty (Extent (o_file s) 0) = Some False \<and>
        objects (store s) ''file'' =
          Some (Encoded (FileJSON ''file'' ex_meta 4096 [0 \<mapsto> ''old'']) [123, 125]) \<and>
        ''old'' \<noteq> CurrentKey ex_sess ex_extent)"
  by (simp add: ex_defs Save_defs fun_eq_iff)

text \<open>
  C1, amended: for a file with one extent, dirty, whose body is not yet in the store,
  when no write fails, the file marshals, and the file's own key is free, \<open>File.Save\<close>
  has exactly one run that returns. In it the goroutine checks the store, uploads the
  body under \<open>Address(body)\<close> and clears the dirty flag; then the caller uploads the
  file's metadata record and returns success. In that record the extent's recorded key
  is the extent's \<open>Key\<close> field, which the call left as it was.
\<close>

theorem Save_single_dirty_extent:
  assumes ext: "Extent f = [i \<mapsto> e]" and dirty: "Extent.dirty e"
    and fresh: "objects st (CurrentKey sess e) = None"
    and nofault: "\<forall>h k. upload_fault st h k = None"
    and marshal: "json_Marshal sess (File_json f) = Inr result"
    and free: "objects st (File.Key f) = None" "File.Key f \<noteq> CurrentKey sess e"
  shows "(\<exists>s. Save_run sess [Task i, Task i, Task i, Task i, Caller] (Save_init f st) = Some s \<and>
            caller s = Returned None \<and>
            Extent (o_file s) = [i \<mapsto> e\<lparr>Extent.dirty := False\<rparr>] \<and>
            objects (store s) =
              (objects st)(CurrentKey sess e \<mapsto> Raw (body e),
                           File.Key f \<mapsto> Encoded (File_json f) result) \<and>
            calls (store s) =
              calls st @ [CallIsExist (CurrentKey sess e),
                          CallUpload (CurrentKey sess e) (Raw (body e)),
                          CallUploadWithCache (File.Key f) (Encoded (File_json f) result)]) \<and>
         File_json f = FileJSON (File.Key f) (File.Meta f) (ExtentSize f) [i \<mapsto> Extent.Key e] \<and>
         (\<forall>sched s' r. Save_run sess sched (Save_init f st) = Some s' \<and> caller s' = Returned r \<longrightarrow>
            sched = [Task i, Task i, Task i, Task i, Caller])"
proof -
  let ?k = "CurrentKey sess e"
  let ?K = "File.Key f"
  let ?b = "Encoded (File_json f) result"
  define s0 where "s0 = Save_init f st"
  define s1 where "s1 = s0\<lparr>tasks := [i \<mapsto> Exist ?k]\<rparr>"
  define st2 where "st2 = st\<lparr>calls := calls st @ [CallIsExist ?k]\<rparr>"
  define s2 where "s2 = s0\<lparr>store := st2, tasks := [i \<mapsto> Uploading ?k]\<rparr>"
  define st3 where "st3 = st\<lparr>objects := (objects st)(?k \<mapsto> Raw (body e)),
      calls := calls st @ [CallIsExist ?k, CallUpload ?k (Raw (body e))]\<rparr>"
  define s3 where "s3 = s0\<lparr>store := st3, tasks := [i \<mapsto> Clearing]\<rparr>"
  define f4 where "f4 = f\<lparr>Extent := [i \<mapsto> e\<lparr>Extent.dirty := False\<rparr>]\<rparr>"
  define s4 where "s4 = s0\<lparr>o_file := f4, store := st3, tasks := [i \<mapsto> Finished]\<rparr>"
  define st5 where "st5 = st\<lparr>objects := (objects st)(?k \<mapsto> Raw (body e), ?K \<mapsto> ?b),
      calls := calls st @ [CallIsExist ?k, CallUpload ?k (Raw (body e)),
                           CallUploadWithCache ?K ?b]\<rparr>"
  define s5 where "s5 = s0\<lparr>o_file := f4, store := st5, tasks := [i \<mapsto> Finished],
      caller := Returned None\<rparr>"
  note sdefs = s0_def s1_def s2_def s3_def s4_def s5_def st2_def st3_def st5_def f4_def
  have t0: "tasks s0 = [i \<mapsto> Start]"
    by (auto simp: s0_def Save_init_def ext)
  have fj: "File_json f4 = File_json f"
    by (auto simp: f4_def File_json_def ext)
  have rec: "File_json f = FileJSON (File.Key f) (File.Meta f) (ExtentSize f) [i \<mapsto> Extent.Key e]"
    by (auto simp: File_json_def ext)
  have step0: "Save_step sess a s0 = Some x \<longleftrightarrow> a = Task i \<and> x = s1" for a x
    using dirty t0
    by (cases a)
       (auto simp: s1_def s0_def Save_init_def Save_task_def Save_caller_def all_done_def
                   set_task_def ext split: if_splits)
  have step1: "Save_step sess a s1 = Some x \<longleftrightarrow> a = Task i \<and> x = s2" for a x
    using fresh t0
    by (cases a)
       (auto simp: sdefs Save_init_def Save_task_def Save_caller_def all_done_def
                   set_task_def IsExist_def ext split: if_splits)
  have step2: "Save_step sess a s2 = Some x \<longleftrightarrow> a = Task i \<and> x = s3" for a x
    using nofault t0
    by (cases a)
       (auto simp: sdefs Save_init_def Save_task_def Save_caller_def all_done_def
                   set_task_def Upload_def ext split: if_splits)
  have step3: "Save_step sess a s3 = Some x \<longleftrightarrow> a = Task i \<and> x = s4" for a x
    using t0
    by (cases a)
       (auto simp: sdefs Save_init_def Save_task_def Save_caller_def all_done_def
                   set_task_def ext split: if_splits)
  have step4: "Save_step sess a s4 = Some x \<longleftrightarrow> a = Caller \<and> x = s5" for a x
    using nofault free marshal fj t0
    by (cases a)
       (auto simp: sdefs Save_init_def Save_task_def Save_caller_def all_done_def
                   set_task_def UploadWithCache_def split: if_splits)
  have step5: "Save_step sess a s5 = None" for a
    by (cases a)
       (auto simp: sdefs Save_init_def Save_task_def Save_caller_def all_done_def
                   set_task_def split: if_splits option.splits)
  have run: "Save_run sess [Task i, Task i, Task i, Task i, Caller] s0 = Some s5"
    using step0[of "Task i" s1] step1[of "Task i" s2] step2[of "Task i" s3]
      step3[of "Task i" s4] step4[of Caller s5]
    by simp
  have sel: "caller s0 = Select" "caller s1 = Select" "caller s2 = Select"
    "caller s3 = Select" "caller s4 = Select"
    by (simp_all add: sdefs Save_init_def)
  have uniq: "sched = [Task i, Task i, Task i, Task i, Caller]"
    if r: "Save_run sess sched s0 = Some s'" and c: "caller s' = Returned r" for sched s' r
  proof -
    from Save_run_only[OF r, of "Task i" s1] step0 c sel obtain r1 where
      1: "sched = Task i # r1" "Save_run sess r1 s1 = Some s'" by auto
    from Save_run_only[OF 1(2), of "Task i" s2] step1 c sel obtain r2 where
      2: "r1 = Task i # r2" "Save_run sess r2 s2 = Some s'" by auto
    from Save_run_only[OF 2(2), of "Task i" s3] step2 c sel obtain r3 where
      3: "r2 = Task i # r3" "Save_run sess r3 s3 = Some s'" by auto
    from Save_run_only[OF 3(2), of "Task i" s4] step3 c sel obtain r4 where
      4: "r3 = Task i # r4" "Save_run sess r4 s4 = Some s'" by auto
    from Save_run_only[OF 4(2), of Caller s5] step4 c sel obtain r5 where
      5: "r4 = Caller # r5" "Save_run sess r5 s5 = Some s'" by auto
    from Save_step_stuck[OF 5(2)] step5 have "r5 = []" by simp
    with 1 2 3 4 5 show ?thesis by simp
  qed
  have fin: "caller s5 = Returned None"
    "Extent (o_file s5) = [i \<mapsto> e\<lparr>Extent.dirty := False\<rparr>]"
    "objects (store s5) = (objects st)(?k \<mapsto> Raw (body e), ?K \<mapsto> ?b)"
    "calls (store s5) = calls st @ [CallIsExist ?k, CallUpload ?k (Raw (body e)),
                           CallUploadWithCache ?K ?b]"
    by (simp_all add: sdefs)
  from run fin rec uniq show ?thesis
    unfolding s0_def by blast
qed


theorem Save_single_dirty_extent_witness:
  "Extent ex_file = [0 \<mapsto> ex_extent] \<and> Extent.dirty ex_extent \<and>
   objects ex_store (CurrentKey ex_sess ex_extent) = None \<and>
   json_Marshal ex_sess (File_json ex_file) = Inr [123, 125] \<and>
   objects ex_store (File.Key ex_file) = None \<and>
   File.Key ex_file \<noteq> CurrentKey ex_sess ex_extent \<and>
   (\<exists>s. Save_run ex_sess [Task 0, Task 0, Task 0, Task 0, Caller] (Save_init ex_file ex_store)
          = Some s \<and>
        caller s = Returned None \<and>
        Extent (o_file s) = [0 \<mapsto> ex_extent\<lparr>Extent.dirty := False\<rparr>] \<and>
        objects (store s) =
          (objects ex_store)(CurrentKey ex_sess ex_extent \<mapsto> Raw (body ex_extent),
             File.Key ex_file \<mapsto> Encoded (File_json ex_file) [123, 125])) \<and>
   File_json ex_file = FileJSON ''file'' ex_meta 4096 [0 \<mapsto> ''old'']"
proof -
  have h: "Extent ex_file = [0 \<mapsto> ex_extent]" "Extent.dirty ex_extent"
    "objects ex_store (CurrentKey ex_sess ex_extent) = None"
    "\<forall>h k. upload_fault ex_store h k = None"
    "json_Marshal ex_sess (File_json ex_file) = Inr [123, 125]"
    "objects ex_store (File.Key ex_file) = None"
    "File.Key ex_file \<noteq> CurrentKey ex_sess ex_extent"
    by (simp_all add: ex_defs CurrentKey_def)
  have j: "FileJSON (File.Key ex_file) (File.Meta ex_file) (ExtentSize ex_file)
             [0 \<mapsto> Extent.Key ex_extent] = FileJSON ''file'' ex_meta 4096 [0 \<mapsto> ''old'']"
    by (simp add: ex_file_def ex_extent_def)
  note inst = Save_single_dirty_extent[OF h]
  from inst obtain s where
    s: "Save_run ex_sess [Task 0, Task 0, Task 0, Task 0, Caller] (Save_init ex_file ex_store)
          = Some s"
      "caller s = Returned None"
      "Extent (o_file s) = [0 \<mapsto> ex_extent\<lparr>Extent.dirty := False\<rparr>]"
      "objects (store s) =
          (objects ex_store)(CurrentKey ex_sess ex_extent \<mapsto> Raw (body ex_extent),
             File.Key ex_file \<mapsto> Encoded (File_json ex_file) [123, 125])"
    by blast
  from inst have "File_json ex_file = FileJSON (File.Key ex_file) (File.Meta ex_file)
      (ExtentSize ex_file) [0 \<mapsto> Extent.Key ex_extent]"
    by blast
  then have r: "File_json ex_file = FileJSON ''file'' ex_meta 4096 [0 \<mapsto> ''old'']"
    using j by (rule trans)
  from s have ex: "\<exists>s. Save_run ex_sess [Task 0, Task 0, Task 0, Task 0, Caller]
          (Save_init ex_file ex_store) = Some s \<and>
        caller s = Returned None \<and>
        Extent (o_file s) = [0 \<mapsto> ex_extent\<lparr>Extent.dirty := False\<rparr>] \<and>
        objects (store s) =
          (objects ex_store)(CurrentKey ex_sess ex_extent \<mapsto> Raw (body ex_extent),
             File.Key ex_file \<mapsto> Encoded (File_json ex_file) [123, 125])"
    by blast
  show ?thesis using h(1,2,3,5,6,7) ex r by (intro conjI) assumption+
qed

section \<open>Save and load of a node\<close>

text \<open>
  C8 as stated fails: a directory whose key already holds an older record (no children)
  gets a child and is saved. The cache-aware upload finds the key present and writes
  nothing, \<open>Save\<close> succeeds, and loading the key yields the older record.
\<close>

theorem Save_Load_counterexample:
  "Directory_Save ex_sess \<lparr>Directory.Key = ''dir'', Meta = ex_meta, FileMeta = [''a'' \<mapsto> ''k'']\<rparr>
     (ex_store\<lparr>objects := [''dir'' \<mapsto> Encoded (DirectoryJSON ''dir'' ex_meta Map.empty) [123, 125]]\<rparr>)
   = (None,
      ex_store\<lparr>objects := [''dir'' \<mapsto> Encoded (DirectoryJSON ''dir'' ex_meta Map.empty) [123, 125]],
        calls := [CallUploadWithCache ''dir''
          (Encoded (DirectoryJSON ''dir'' ex_meta [''a'' \<mapsto> ''k'']) [123, 125])]\<rparr>) \<and>
   fst (Load ''dir''
      (ex_store\<lparr>objects := [''dir'' \<mapsto> Encoded (DirectoryJSON ''dir'' ex_meta Map.empty) [123, 125]],
        calls := [CallUploadWithCache ''dir''
          (Encoded (DirectoryJSON ''dir'' ex_meta [''a'' \<mapsto> ''k'']) [123, 125])]\<rparr>))
   = Inr (DirectoryJSON ''dir'' ex_meta Map.empty) \<and>
   DirectoryJSON ''dir'' ex_meta Map.empty \<noteq>
     Directory_json \<lparr>Directory.Key = ''dir'', Meta = ex_meta, FileMeta = [''a'' \<mapsto> ''k'']\<rparr>"
  by (simp add: Directory_Save_def Directory_json_def UploadWithCache_def Load_def Download_def
        ex_sess_def ex_store_def fun_eq_iff)

lemma UploadWithCache_fresh:
  assumes "UploadWithCache key b st = (None, st')" and "objects st key = None"
  shows "objects st' key = Some b"
  using assms by (auto simp: UploadWithCache_def split: option.splits)

lemma Load_Encoded:
  assumes "objects st key = Some (Encoded v b)" and "download_fault st (calls st) key = None"
  shows "fst (Load key st) = Inr v"
  using assms by (simp add: Load_def Download_def)

text \<open>
  C8, amended: when no object is present under the node's key before the call (and, for
  a file, no dirty extent has the file's key as its content address), a successful
  \<open>Save\<close> followed by a load of the node's key that the store does not fail yields the
  node's persisted fields: key, metadata, and children, or extent size and the key of
  each extent index, or link target. For a file this holds for every run of \<open>Save\<close>, and
  the persisted fields of the file are the same after the call as before it.
\<close>

theorem Save_Load_roundtrip:
  "(Directory_Save sess d sd = (None, sd') \<and> objects sd (Directory.Key d) = None \<and>
    download_fault sd' (calls sd') (Directory.Key d) = None \<longrightarrow>
      fst (Load (Directory.Key d) sd') = Inr (Directory_json d)) \<and>
   (SymLink_Save sess l sl = (None, sl') \<and> objects sl (SymLink.Key l) = None \<and>
    download_fault sl' (calls sl') (SymLink.Key l) = None \<longrightarrow>
      fst (Load (SymLink.Key l) sl') = Inr (SymLink_json l)) \<and>
   (Save_run sess sched (Save_init f st) = Some s \<and> caller s = Returned None \<and>
    objects st (File.Key f) = None \<and>
    (\<forall>i e. Extent f i = Some e \<and> Extent.dirty e \<longrightarrow> CurrentKey sess e \<noteq> File.Key f) \<and>
    download_fault (store s) (calls (store s)) (File.Key f) = None \<longrightarrow>
      fst (Load (File.Key f) (store s)) = Inr (File_json f) \<and>
      File_json (o_file s) = File_json f)"
proof (intro conjI impI)
  assume a: "Directory_Save sess d sd = (None, sd') \<and> objects sd (Directory.Key d) = None \<and>
    download_fault sd' (calls sd') (Directory.Key d) = None"
  then obtain result where "json_Marshal sess (Directory_json d) = Inr result"
    and "UploadWithCache (Directory.Key d) (Encoded (Directory_json d) result) sd = (None, sd')"
    by (auto simp: Directory_Save_def split: sum.splits)
  with a have "objects sd' (Directory.Key d) = Some (Encoded (Directory_json d) result)"
    by (auto intro: UploadWithCache_fresh)
  with a show "fst (Load (Directory.Key d) sd') = Inr (Directory_json d)"
    by (auto intro: Load_Encoded)
next
  assume a: "SymLink_Save sess l sl = (None, sl') \<and> objects sl (SymLink.Key l) = None \<and>
    download_fault sl' (calls sl') (SymLink.Key l) = None"
  then obtain result where "json_Marshal sess (SymLink_json l) = Inr result"
    and "UploadWithCache (SymLink.Key l) (Encoded (SymLink_json l) result) sl = (None, sl')"
    by (auto simp: SymLink_Save_def split: sum.splits)
  with a have "objects sl' (SymLink.Key l) = Some (Encoded (SymLink_json l) result)"
    by (auto intro: UploadWithCache_fresh)
  with a show "fst (Load (SymLink.Key l) sl') = Inr (SymLink_json l)"
    by (auto intro: Load_Encoded)
next
  assume a: "Save_run sess sched (Save_init f st) = Some s \<and> caller s = Returned None \<and>
    objects st (File.Key f) = None \<and>
    (\<forall>i e. Extent f i = Some e \<and> Extent.dirty e \<longrightarrow> CurrentKey sess e \<noteq> File.Key f) \<and>
    download_fault (store s) (calls (store s)) (File.Key f) = None"
  then have inv: "Save_inv sess f st s" by (auto intro: Save_reach_inv)
  then have fr: "frame_ok sess f st s" and so: "store_ok sess f st s"
    and co: "caller_ok sess f st s"
    by (simp_all add: Save_inv_def)
  from File_json_frame(1)[OF fr] show "File_json (o_file s) = File_json f" .
  from co a obtain result pre where
    pre: "new_calls st s = pre @ [CallUploadWithCache (File.Key f) (Encoded (File_json f) result)]"
      "objects (store s) (File.Key f) = Some (Encoded (File_json f) result) \<or>
       objects st (File.Key f) \<noteq> None \<or> (\<exists>b. CallUpload (File.Key f) b \<in> set pre)"
    by (auto simp: caller_ok_def split: if_splits sum.splits)
  have "\<not> (\<exists>b. CallUpload (File.Key f) b \<in> set pre)"
  proof
    assume "\<exists>b. CallUpload (File.Key f) b \<in> set pre"
    then obtain b where "CallUpload (File.Key f) b \<in> set (new_calls st s)"
      using pre(1) by auto
    with so obtain i e where "Extent f i = Some e" "Extent.dirty e" "File.Key f = CurrentKey sess e"
      unfolding store_ok_def by blast
    with a show False by auto
  qed
  with pre(2) a have "objects (store s) (File.Key f) = Some (Encoded (File_json f) result)"
    by auto
  with a show "fst (Load (File.Key f) (store s)) = Inr (File_json f)"
    by (auto intro: Load_Encoded)
qed


theorem Save_Load_roundtrip_witness:
  "Directory_Save ex_sess \<lparr>Directory.Key = ''dir'', Meta = ex_meta, FileMeta = Map.empty\<rparr> ex_store
     = (None, ex_store\<lparr>objects := [''dir'' \<mapsto> Encoded (DirectoryJSON ''dir'' ex_meta Map.empty) [123, 125]],
          calls := [CallUploadWithCache ''dir'' (Encoded (DirectoryJSON ''dir'' ex_meta Map.empty) [123, 125])]\<rparr>) \<and>
   fst (Load ''dir''
     (ex_store\<lparr>objects := [''dir'' \<mapsto> Encoded (DirectoryJSON ''dir'' ex_meta Map.empty) [123, 125]],
          calls := [CallUploadWithCache ''dir'' (Encoded (DirectoryJSON ''dir'' ex_meta Map.empty) [123, 125])]\<rparr>))
     = Inr (DirectoryJSON ''dir'' ex_meta Map.empty) \<and>
   SymLink_Save ex_sess \<lparr>SymLink.Key = ''lnk'', Meta = ex_meta, LinkTo = ''/tmp/x''\<rparr> ex_store
     = (None, ex_store\<lparr>objects := [''lnk'' \<mapsto> Encoded (SymLinkJSON ''lnk'' ex_meta ''/tmp/x'') [123, 125]],
          calls := [CallUploadWithCache ''lnk'' (Encoded (SymLinkJSON ''lnk'' ex_meta ''/tmp/x'') [123, 125])]\<rparr>) \<and>
   fst (Load ''lnk''
     (ex_store\<lparr>objects := [''lnk'' \<mapsto> Encoded (SymLinkJSON ''lnk'' ex_meta ''/tmp/x'') [123, 125]],
          calls := [CallUploadWithCache ''lnk'' (Encoded (SymLinkJSON ''lnk'' ex_meta ''/tmp/x'') [123, 125])]\<rparr>))
     = Inr (SymLinkJSON ''lnk'' ex_meta ''/tmp/x'') \<and>
   Save_run ex_sess [Task 0, Task 0, Task 0, Task 0, Caller] (Save_init ex_file ex_store) \<noteq> None \<and>
   caller (the (Save_run ex_sess [Task 0, Task 0, Task 0, Task 0, Caller]
      (Save_init ex_file ex_store))) = Returned None \<and>
   fst (Load ''file'' (store (the (Save_run ex_sess [Task 0, Task 0, Task 0, Task 0, Caller]
      (Save_init ex_file ex_store)))))
     = Inr (FileJSON ''file'' ex_meta 4096 [0 \<mapsto> ''old''])"
proof -
  let ?d = "\<lparr>Directory.Key = ''dir'', Meta = ex_meta, FileMeta = Map.empty\<rparr>"
  let ?dj = "DirectoryJSON ''dir'' ex_meta Map.empty"
  let ?std = "ex_store\<lparr>objects := [''dir'' \<mapsto> Encoded ?dj [123, 125]],
          calls := [CallUploadWithCache ''dir'' (Encoded ?dj [123, 125])]\<rparr>"
  let ?l = "\<lparr>SymLink.Key = ''lnk'', Meta = ex_meta, LinkTo = ''/tmp/x''\<rparr>"
  let ?lj = "SymLinkJSON ''lnk'' ex_meta ''/tmp/x''"
  let ?stl = "ex_store\<lparr>objects := [''lnk'' \<mapsto> Encoded ?lj [123, 125]],
          calls := [CallUploadWithCache ''lnk'' (Encoded ?lj [123, 125])]\<rparr>"
  let ?sched = "[Task 0, Task 0, Task 0, Task 0, Caller]"
  let ?s = "the (Save_run ex_sess ?sched (Save_init ex_file ex_store))"
  note inst = Save_Load_roundtrip[where sess = ex_sess and d = ?d and sd = ex_store
      and sd' = ?std and l = ?l and sl = ex_store and sl' = ?stl and f = ex_file
      and st = ex_store and sched = ?sched and s = ?s]
  have d1: "Directory_Save ex_sess ?d ex_store = (None, ?std)"
    by (simp add: Directory_Save_def Directory_json_def UploadWithCache_def ex_sess_def ex_store_def)
  have d2: "objects ex_store (Directory.Key ?d) = None"
    "download_fault ?std (calls ?std) (Directory.Key ?d) = None"
    by (simp_all add: ex_store_def)
  have dj: "Directory.Key ?d = ''dir''" "Directory_json ?d = ?dj"
    by (simp_all add: Directory_json_def)
  from inst d1 d2 have "fst (Load (Directory.Key ?d) ?std) = Inr (Directory_json ?d)"
    by blast
  then have d3: "fst (Load ''dir'' ?std) = Inr ?dj"
    unfolding dj .
  have l1: "SymLink_Save ex_sess ?l ex_store = (None, ?stl)"
    by (simp add: SymLink_Save_def SymLink_json_def UploadWithCache_def ex_sess_def ex_store_def)
  have l2: "objects ex_store (SymLink.Key ?l) = None"
    "download_fault ?stl (calls ?stl) (SymLink.Key ?l) = None"
    by (simp_all add: ex_store_def)
  have lj: "SymLink.Key ?l = ''lnk''" "SymLink_json ?l = ?lj"
    by (simp_all add: SymLink_json_def)
  from inst l1 l2 have "fst (Load (SymLink.Key ?l) ?stl) = Inr (SymLink_json ?l)"
    by blast
  then have l3: "fst (Load ''lnk'' ?stl) = Inr ?lj"
    unfolding lj .
  have run: "Save_run ex_sess ?sched (Save_init ex_file ex_store) = Some ?s"
    by (simp add: ex_defs Save_defs)
  have f1: "caller ?s = Returned None"
    by (simp add: ex_defs Save_defs)
  have f2: "objects ex_store (File.Key ex_file) = None"
    "\<forall>i e. Extent ex_file i = Some e \<and> Extent.dirty e \<longrightarrow> CurrentKey ex_sess e \<noteq> File.Key ex_file"
    by (auto simp: ex_defs CurrentKey_def split: if_splits)
  have f3: "download_fault (store ?s) (calls (store ?s)) (File.Key ex_file) = None"
    by (simp add: ex_defs Save_defs)
  have fj: "File.Key ex_file = ''file''"
    "File_json ex_file = FileJSON ''file'' ex_meta 4096 [0 \<mapsto> ''old'']"
    by (auto simp: ex_file_def ex_extent_def File_json_def)
  from inst run f1 f2 f3 have "fst (Load (File.Key ex_file) (store ?s)) = Inr (File_json ex_file)"
    by blast
  then have f4: "fst (Load ''file'' (store ?s)) = Inr (FileJSON ''file'' ex_meta 4096 [0 \<mapsto> ''old''])"
    unfolding fj .
  have f0: "Save_run ex_sess ?sched (Save_init ex_file ex_store) \<noteq> None"
    using run by (rule Some_the_not_None)
  show ?thesis using d1 d3 l1 l3 f0 f1 f4 by (intro conjI) assumption+
qed

section \<open>Returning on the first error\<close>

text \<open>
  C5 as stated fails: in the example the upload of extent 0 fails while the goroutine of
  extent 1 is still before its existence check. The caller receives the error and
  returns; nothing waits for the goroutine of extent 1, which then checks the store,
  uploads its body and clears the dirty flag of its extent after the call has returned.
\<close>

theorem Save_returns_unsupervised_counterexample:
  "(case Save_run ex_sess [Task 0, Task 0, Task 0, Task 1, Task 0] (Save_init ex_file2 ex_faulty) of
      None \<Rightarrow> False
    | Some s \<Rightarrow>
        caller s = Returned (Some (Failure ''io'')) \<and>
        tasks s 1 = Some (Exist (KeyGen ex_sess [2])) \<and>
        map_option Extent.dirty (Extent (o_file s) 1) = Some True \<and>
        objects (store s) (KeyGen ex_sess [2]) = None \<and>
        (case Save_run ex_sess [Task 1, Task 1, Task 1] s of
           None \<Rightarrow> False
         | Some s' \<Rightarrow>
             map_option Extent.dirty (Extent (o_file s') 1) = Some False \<and>
             objects (store s') (KeyGen ex_sess [2]) = Some (Raw [2])))"
  by (simp add: ex_defs Save_defs)


text \<open>
  C5, amended: \<open>File.Save\<close> is fail-fast: as soon as a goroutine is blocked sending an
  error and the caller is in its \<open>select\<close>, the caller can receive that error and return
  it, whatever the other goroutines are doing; they are left as they are, neither
  awaited nor cancelled. In every run, a call that has returned has either seen every
  goroutine finish, or has returned an error received from a goroutine; a call that
  returned success has seen every goroutine finish.
\<close>

theorem Save_fail_fast:
  "(tasks x i = Some (Sending err) \<and> Extent (o_file x) i \<noteq> None \<and> caller x = Select \<longrightarrow>
      (\<exists>x'. Save_step sess (Task i) x = Some x' \<and> caller x' = Returned (Some err) \<and>
            tasks x' i = Some Abandoned \<and> (\<forall>j. j \<noteq> i \<longrightarrow> tasks x' j = tasks x j) \<and>
            o_file x' = o_file x \<and> store x' = store x)) \<and>
   (Save_run sess sched (Save_init f st) = Some s \<and> caller s = Returned r \<longrightarrow>
      all_done s \<or> (r \<noteq> None \<and> (\<exists>j. tasks s j = Some Abandoned))) \<and>
   (Save_run sess sched (Save_init f st) = Some s \<and> caller s = Returned None \<longrightarrow> all_done s)"
proof -
  have 1: "\<exists>x'. Save_step sess (Task i) x = Some x' \<and> caller x' = Returned (Some err) \<and>
            tasks x' i = Some Abandoned \<and> (\<forall>j. j \<noteq> i \<longrightarrow> tasks x' j = tasks x j) \<and>
            o_file x' = o_file x \<and> store x' = store x"
    if "tasks x i = Some (Sending err) \<and> Extent (o_file x) i \<noteq> None \<and> caller x = Select"
    using that by (auto simp: Save_task_def set_task_def)
  have 2: "all_done s \<or> (r \<noteq> None \<and> (\<exists>j. tasks s j = Some Abandoned))"
    if "Save_run sess sched (Save_init f st) = Some s \<and> caller s = Returned r" for r
  proof -
    from that have "caller_ok sess f st s"
      using Save_reach_inv by (auto simp: Save_inv_def)
    with that show ?thesis
      by (auto simp: caller_ok_def split: if_splits)
  qed
  from 1 2 2[of None] show ?thesis by blast
qed

theorem Save_fail_fast_witness:
  "Save_run ex_sess [Task 0, Task 0, Task 0, Task 1] (Save_init ex_file2 ex_faulty) \<noteq> None \<and>
   tasks (the (Save_run ex_sess [Task 0, Task 0, Task 0, Task 1] (Save_init ex_file2 ex_faulty))) 0
     = Some (Sending (Failure ''io'')) \<and>
   (\<exists>x'. Save_step ex_sess (Task 0)
            (the (Save_run ex_sess [Task 0, Task 0, Task 0, Task 1] (Save_init ex_file2 ex_faulty)))
          = Some x' \<and>
        caller x' = Returned (Some (Failure ''io'')) \<and>
        tasks x' 1 = Some (Exist (KeyGen ex_sess [2]))) \<and>
   caller (the (Save_run ex_sess [Task 0, Task 0, Task 0, Task 1, Task 0]
     (Save_init ex_file2 ex_faulty))) = Returned (Some (Failure ''io'')) \<and>
   (\<exists>j. tasks (the (Save_run ex_sess [Task 0, Task 0, Task 0, Task 1, Task 0]
     (Save_init ex_file2 ex_faulty))) j = Some Abandoned) \<and>
   caller (the (Save_run ex_sess [Task 0, Task 0, Task 0, Task 0, Caller]
     (Save_init ex_file ex_store))) = Returned None \<and>
   all_done (the (Save_run ex_sess [Task 0, Task 0, Task 0, Task 0, Caller]
     (Save_init ex_file ex_store)))"
proof -
  let ?x = "the (Save_run ex_sess [Task 0, Task 0, Task 0, Task 1] (Save_init ex_file2 ex_faulty))"
  let ?s = "the (Save_run ex_sess [Task 0, Task 0, Task 0, Task 1, Task 0]
     (Save_init ex_file2 ex_faulty))"
  let ?t = "the (Save_run ex_sess [Task 0, Task 0, Task 0, Task 0, Caller]
     (Save_init ex_file ex_store))"
  have runx: "Save_run ex_sess [Task 0, Task 0, Task 0, Task 1] (Save_init ex_file2 ex_faulty)
      = Some ?x"
    by (simp add: ex_defs Save_defs)
  have x: "tasks ?x 0 = Some (Sending (Failure ''io''))" "Extent (o_file ?x) 0 \<noteq> None"
    "caller ?x = Select" "tasks ?x 1 = Some (Exist (KeyGen ex_sess [2]))"
    by (simp_all add: ex_defs Save_defs)
  note a = Save_fail_fast[where x = ?x and i = 0 and err = "Failure ''io''" and sess = ex_sess
      and f = ex_file2 and st = ex_faulty and sched = "[Task 0, Task 0, Task 0, Task 1, Task 0]"
      and s = ?s and r = "Some (Failure ''io'')"]
  from a x(1,2,3) obtain x' where
    x': "Save_step ex_sess (Task 0) ?x = Some x'" "caller x' = Returned (Some (Failure ''io''))"
      "\<forall>j. j \<noteq> 0 \<longrightarrow> tasks x' j = tasks ?x j"
    by blast
  from x'(3) x(4) have "tasks x' 1 = Some (Exist (KeyGen ex_sess [2]))" by simp
  with x' have p1: "\<exists>x'. Save_step ex_sess (Task 0) ?x = Some x' \<and>
        caller x' = Returned (Some (Failure ''io'')) \<and>
        tasks x' 1 = Some (Exist (KeyGen ex_sess [2]))"
    by blast
  have runs: "Save_run ex_sess [Task 0, Task 0, Task 0, Task 1, Task 0]
     (Save_init ex_file2 ex_faulty) = Some ?s"
    by (simp add: ex_defs Save_defs)
  have s: "caller ?s = Returned (Some (Failure ''io''))" "\<not> all_done ?s"
    by (auto simp: ex_defs Save_defs)
  from a runs s have p2: "\<exists>j. tasks ?s j = Some Abandoned" by blast
  note b = Save_fail_fast[where sess = ex_sess and f = ex_file and st = ex_store
      and sched = "[Task 0, Task 0, Task 0, Task 0, Caller]" and s = ?t]
  have runt: "Save_run ex_sess [Task 0, Task 0, Task 0, Task 0, Caller]
     (Save_init ex_file ex_store) = Some ?t"
    by (simp add: ex_defs Save_defs)
  have t: "caller ?t = Returned None"
    by (simp add: ex_defs Save_defs)
  from b runt t have p3: "all_done ?t" by blast
  have p0: "Save_run ex_sess [Task 0, Task 0, Task 0, Task 1] (Save_init ex_file2 ex_faulty) \<noteq> None"
    using runx by (rule Some_the_not_None)
  show ?thesis using p0 x(1) p1 s(1) p2 t p3 by (intro conjI) assumption+
qed

section \<open>Counting the uploads of File.Save\<close>

lemma count_ok_init: "count_ok sess f st (Save_init f st)"
proof -
  have "\<not> uploader sess f (Save_init f st) k i" for k i
    by (auto simp: uploader_def uploaded_def Save_init_def split: option.splits)
  then show ?thesis
    by (simp add: count_ok_def uploads_of_def)
qed

lemma card_same:
  "(\<And>i. P' i = P i) \<Longrightarrow> card {i. P' i} = card {i. P i}"
  by simp

lemma card_one_more:
  fixes i0 :: "64 word"
  assumes "P' i0" "\<not> P i0" "\<And>i. i \<noteq> i0 \<Longrightarrow> P' i = P i"
  shows "card {i. P' i} = Suc (card {i. P i})"
proof -
  have "{i. P' i} = insert i0 {i. P i}" using assms by (auto, metis)
  moreover have "i0 \<notin> {i. P i}" using assms by simp
  ultimately show ?thesis by simp
qed

lemma uploads_of_append [simp]: "uploads_of k (xs @ ys) = uploads_of k xs @ uploads_of k ys"
  by (simp add: uploads_of_def)


lemma task_step_count:
  assumes step: "task_step sess i e t s = Some s'"
    and t: "tasks s i = Some t" and e: "Extent (o_file s) i = Some e"
    and e0: "Extent f i = Some e0" and ok: "task_ok sess st s e0 e t"
    and st: "store_ok sess f st s" and cnt: "count_ok sess f st s"
  shows "count_ok sess f st s'"
proof -
  have cl: "calls (store s) = calls st @ new_calls st s" using st by (simp add: store_ok_def)
  have others: "uploader sess f s' k j = uploader sess f s k j" if "j \<noteq> i" for j k
    using task_step_others[OF step that] by (simp add: uploader_def)
  show ?thesis
  proof (cases "\<exists>key. t = Uploading key")
    case True
    then obtain key where key: "t = Uploading key" ..
    with ok have k: "e = e0" "Extent.dirty e0" "key = CurrentKey sess e0"
      by (auto simp: task_ok_def)
    let ?c = "CallUpload key (Raw (body e))"
    have nc: "calls (store s') = calls (store s) @ [?c]"
      using step key by (auto simp: set_task_def Upload_def split: option.splits)
    have nc': "new_calls st s' = new_calls st s @ [?c]"
      using new_calls_append[OF cl nc] .
    from step key have s'i: "Extent (o_file s') i = Some e"
      "tasks s' i = Some Clearing \<or> (\<exists>err. tasks s' i = Some (Sending err))"
      using e by (auto simp: set_task_def Upload_def split: option.splits)
    have before: "\<not> uploader sess f s k' i" for k'
      using t key by (simp add: uploader_def uploaded_def e e0)
    have after: "uploader sess f s' k' i = (k' = key)" for k'
      using s'i k e0 by (auto simp: uploader_def uploaded_def)
    show ?thesis
      unfolding count_ok_def
    proof
      fix k'
      show "length (uploads_of k' (new_calls st s')) = card {j. uploader sess f s' k' j}"
      proof (cases "k' = key")
        case True
        have "card {j. uploader sess f s' k' j} = Suc (card {j. uploader sess f s k' j})"
          by (rule card_one_more[where ?i0.0 = i]) (simp_all add: after True before others)
        moreover have "length (uploads_of k' (new_calls st s')) =
            Suc (length (uploads_of k' (new_calls st s)))"
          by (simp add: nc' True) (simp add: uploads_of_def)
        ultimately show ?thesis using cnt by (simp add: count_ok_def)
      next
        case False
        have "card {j. uploader sess f s' k' j} = card {j. uploader sess f s k' j}"
        proof (rule card_same)
          fix j show "uploader sess f s' k' j = uploader sess f s k' j"
            by (cases "j = i") (simp_all add: others after before False)
        qed
        moreover have "length (uploads_of k' (new_calls st s')) =
            length (uploads_of k' (new_calls st s))"
          using False by (simp add: nc') (simp add: uploads_of_def)
        ultimately show ?thesis using cnt by (simp add: count_ok_def)
      qed
    qed
  next
    case False
    have nou: "\<exists>cs. new_calls st s' = new_calls st s @ cs \<and> uploads_of k cs = []" for k
    proof -
      from step False have "calls (store s') = calls (store s) \<or>
          (\<exists>key. calls (store s') = calls (store s) @ [CallIsExist key])"
        by (cases t) (auto simp: set_task_def IsExist_def split: if_splits)
      then show ?thesis
      proof
        assume "calls (store s') = calls (store s)"
        then have "new_calls st s' = new_calls st s @ []" by (simp add: new_calls_def)
        then show ?thesis by (metis uploads_of_def filter.simps(1))
      next
        assume "\<exists>key. calls (store s') = calls (store s) @ [CallIsExist key]"
        then obtain key where "calls (store s') = calls (store s) @ [CallIsExist key]" ..
        from new_calls_append[OF cl this]
        have "new_calls st s' = new_calls st s @ [CallIsExist key]" .
        moreover have "uploads_of k [CallIsExist key] = []" by (simp add: uploads_of_def)
        ultimately show ?thesis by blast
      qed
    qed
    have self: "uploader sess f s' k i = uploader sess f s k i" for k
      using step False ok t e e0
      by (cases t)
         (auto simp: uploader_def uploaded_def set_task_def task_ok_def IsExist_def
               split: if_splits)
    show ?thesis
      unfolding count_ok_def
    proof
      fix k
      from nou[of k] have "length (uploads_of k (new_calls st s')) =
          length (uploads_of k (new_calls st s))"
        by auto
      moreover have "card {j. uploader sess f s' k j} = card {j. uploader sess f s k j}"
      proof (rule card_same)
        fix j show "uploader sess f s' k j = uploader sess f s k j"
          by (cases "j = i") (simp_all add: others self)
      qed
      ultimately show "length (uploads_of k (new_calls st s')) = card {j. uploader sess f s' k j}"
        using cnt by (simp add: count_ok_def)
    qed
  qed
qed


lemma Save_caller_count:
  assumes step: "Save_caller sess s = Some s'"
    and st: "store_ok sess f st s" and cnt: "count_ok sess f st s"
  shows "count_ok sess f st s'"
proof -
  have cl: "calls (store s) = calls st @ new_calls st s" using st by (simp add: store_ok_def)
  from step have same: "o_file s' = o_file s" "tasks s' = tasks s"
    by (auto simp: Save_caller_def split: if_splits sum.splits prod.splits)
  from step have "calls (store s') = calls (store s) \<or>
      (\<exists>k b. calls (store s') = calls (store s) @ [CallUploadWithCache k b])"
    by (auto simp: Save_caller_def UploadWithCache_def
             split: if_splits sum.splits prod.splits option.splits)
  then have nc: "uploads_of k (new_calls st s') = uploads_of k (new_calls st s)" for k
  proof
    assume "calls (store s') = calls (store s)"
    then show ?thesis by (simp add: new_calls_def)
  next
    assume "\<exists>k b. calls (store s') = calls (store s) @ [CallUploadWithCache k b]"
    then obtain k' b where "calls (store s') = calls (store s) @ [CallUploadWithCache k' b]"
      by blast
    from new_calls_append[OF cl this] show ?thesis
      by (simp add: uploads_of_def)
  qed
  have "uploader sess f s' k i = uploader sess f s k i" for k i
    by (simp add: uploader_def same)
  with nc cnt show ?thesis by (simp add: count_ok_def)
qed

lemma Save_step_count:
  assumes step: "Save_step sess a s = Some s'"
    and inv: "Save_inv sess f st s" and cnt: "count_ok sess f st s"
  shows "count_ok sess f st s'"
proof (cases a)
  case (Task i)
  with step obtain t e where t: "tasks s i = Some t" and e: "Extent (o_file s) i = Some e"
    and ts: "task_step sess i e t s = Some s'"
    by (auto simp: Save_task_def split: option.splits)
  from inv have "slot_ok sess st s (Extent f i) (Extent (o_file s) i) (tasks s i)"
    by (simp add: Save_inv_def frame_ok_def)
  with t e obtain e0 where e0: "Extent f i = Some e0" and ok: "task_ok sess st s e0 e t"
    by (auto simp: slot_ok_def split: option.splits)
  from inv have "store_ok sess f st s" by (simp add: Save_inv_def)
  with ts t e e0 ok show ?thesis using cnt by (rule task_step_count)
next
  case Caller
  from inv have "store_ok sess f st s" by (simp add: Save_inv_def)
  with step Caller cnt show ?thesis by (auto intro: Save_caller_count)
qed

lemma Save_run_count:
  "Save_run sess sched s = Some s' \<Longrightarrow> Save_inv sess f st s \<Longrightarrow> count_ok sess f st s \<Longrightarrow>
     count_ok sess f st s'"
proof (induction sched arbitrary: s)
  case Nil
  then show ?case by simp
next
  case (Cons a sched)
  from Cons.prems(1) obtain x where x: "Save_step sess a s = Some x"
    "Save_run sess sched x = Some s'"
    by (auto split: option.splits)
  from Save_step_inv[OF x(1) Cons.prems(2)] Save_step_count[OF x(1) Cons.prems(2,3)]
    Cons.IH[OF x(2)]
  show ?case by blast
qed

lemma Save_reach_count:
  "Save_run sess sched (Save_init f st) = Some s \<Longrightarrow> count_ok sess f st s"
  using Save_run_count Save_inv_init count_ok_init by blast

section \<open>One failing upload\<close>

text \<open>
  C4 as stated fails: in the example (two dirty extents, the upload of extent 0 fails)
  \<open>Save\<close> returns the error while the other extent is still dirty, and when the
  goroutine of that extent has run to its end the extent is non-dirty but its \<open>Key\<close>
  field still is the old one, not the content address of its body.
\<close>

theorem Save_partial_failure_counterexample:
  "(case Save_run ex_sess [Task 0, Task 0, Task 0, Task 0] (Save_init ex_file2 ex_faulty) of
      None \<Rightarrow> False
    | Some s \<Rightarrow>
        caller s = Returned (Some (Failure ''io'')) \<and>
        map_option Extent.dirty (Extent (o_file s) 1) = Some True \<and>
        (case Save_run ex_sess [Task 1, Task 1, Task 1, Task 1] s of
           None \<Rightarrow> False
         | Some s' \<Rightarrow>
             tasks s' 1 = Some Finished \<and>
             Extent (o_file s') 1 = Some \<lparr>Extent.Key = ''stale-b'', body = [2], Extent.dirty = False\<rparr> \<and>
             ''stale-b'' \<noteq> KeyGen ex_sess [2]))"
  by (simp add: ex_defs Save_defs)

lemma Save_slot:
  assumes "Save_run sess sched (Save_init f st) = Some s" and "Extent f i = Some e0"
  shows "\<exists>e t. Extent (o_file s) i = Some e \<and> tasks s i = Some t \<and> task_ok sess st s e0 e t"
proof -
  from Save_reach_inv[OF assms(1)]
  have "slot_ok sess st s (Extent f i) (Extent (o_file s) i) (tasks s i)"
    by (simp add: Save_inv_def frame_ok_def)
  with assms(2) show ?thesis by (auto simp: slot_ok_def)
qed

lemma Save_abandoned_error:
  assumes "Save_run sess sched (Save_init f st) = Some s" and "tasks s i = Some Abandoned"
  shows "\<exists>e0 err h. Extent f i = Some e0 \<and> upload_fault st h (CurrentKey sess e0) = Some err \<and>
           caller s = Returned (Some err)"
proof -
  from Save_reach_inv[OF assms(1)]
  have "slot_ok sess st s (Extent f i) (Extent (o_file s) i) (tasks s i)"
    by (simp add: Save_inv_def frame_ok_def)
  with assms(2) show ?thesis
    by (auto simp: slot_ok_def task_ok_def split: option.splits)
qed

lemma Save_unique_upload_clears:
  assumes run: "Save_run sess sched (Save_init f st) = Some s"
    and e0: "Extent f j = Some e0" and d: "Extent.dirty e0"
    and fin: "tasks s j = Some Finished"
    and fresh: "objects st (CurrentKey sess e0) = None"
    and uniq: "\<forall>i e. i \<noteq> j \<and> Extent f i = Some e \<longrightarrow> CurrentKey sess e \<noteq> CurrentKey sess e0"
  shows "Extent (o_file s) j = Some (e0\<lparr>Extent.dirty := False\<rparr>)"
proof -
  let ?k = "CurrentKey sess e0"
  from Save_slot[OF run e0] fin obtain e where
    e: "Extent (o_file s) j = Some e" "task_ok sess st s e0 e Finished"
    by auto
  show ?thesis
  proof (cases "e = e0")
    case False
    with e show ?thesis by (auto simp: task_ok_def)
  next
    case True
    with e(2) d fresh obtain b where "CallUpload ?k b \<in> set (new_calls st s)"
      by (auto simp: task_ok_def)
    then have "uploads_of ?k (new_calls st s) \<noteq> []"
      by (force simp: uploads_of_def filter_empty_conv)
    with Save_reach_count[OF run] have "card {i. uploader sess f s ?k i} \<noteq> 0"
      unfolding count_ok_def by (metis length_0_conv)
    then obtain i where i: "uploader sess f s ?k i"
      by (metis (mono_tags, lifting) card.empty empty_Collect_eq)
    then obtain e' where "Extent f i = Some e'" "CurrentKey sess e' = ?k"
      by (auto simp: uploader_def split: option.splits)
    with uniq have "i = j" by auto
    with i e fin True d have False
      by (simp add: uploader_def uploaded_def e0)
    then show ?thesis ..
  qed
qed


text \<open>
  C4, amended: take a file in which the upload of one dirty extent \<open>x\<close> always fails (its
  content is not in the store) and no other write fails. Then \<open>File.Save\<close> can return, and
  whenever it has returned it has returned that error and has not uploaded the file's
  metadata record. The failing extent stays as it was, and no extent's \<open>Key\<close> changes.
  Every other dirty extent whose content address is not in the store and is shared
  with no other extent is non-dirty once its goroutine has finished, and until then its
  goroutine can always take its next step; \<open>Save\<close> does not wait for that.
\<close>

theorem Save_one_upload_fails:
  assumes fx: "Extent f x = Some ex" and dx: "Extent.dirty ex"
    and fresh: "objects st (CurrentKey sess ex) = None"
    and fails: "\<forall>h. upload_fault st h (CurrentKey sess ex) = Some err"
    and rest: "\<forall>h k. k \<noteq> CurrentKey sess ex \<longrightarrow> upload_fault st h k = None"
  shows
    "(\<exists>s. Save_run sess [Task x, Task x, Task x, Task x] (Save_init f st) = Some s \<and>
          caller s = Returned (Some err)) \<and>
     (\<forall>sched s r. Save_run sess sched (Save_init f st) = Some s \<and> caller s = Returned r \<longrightarrow>
          r = Some err \<and> no_cache_upload (new_calls st s)) \<and>
     (\<forall>sched s. Save_run sess sched (Save_init f st) = Some s \<longrightarrow>
          Extent (o_file s) x = Some ex \<and>
          (\<forall>j e. Extent f j = Some e \<longrightarrow>
             map_option Extent.Key (Extent (o_file s) j) = Some (Extent.Key e))) \<and>
     (\<forall>sched s j e. Save_run sess sched (Save_init f st) = Some s \<and> j \<noteq> x \<and>
          Extent f j = Some e \<and> Extent.dirty e \<and> objects st (CurrentKey sess e) = None \<and>
          (\<forall>i e'. i \<noteq> j \<and> Extent f i = Some e' \<longrightarrow> CurrentKey sess e' \<noteq> CurrentKey sess e) \<longrightarrow>
          (tasks s j = Some Finished \<longrightarrow> Extent (o_file s) j = Some (e\<lparr>Extent.dirty := False\<rparr>)) \<and>
          (tasks s j \<noteq> Some Finished \<longrightarrow> Save_step sess (Task j) s \<noteq> None))"
proof (intro conjI allI impI)
  show "\<exists>s. Save_run sess [Task x, Task x, Task x, Task x] (Save_init f st) = Some s \<and>
          caller s = Returned (Some err)"
    using fx dx fresh fails
    by (simp add: Save_init_def Save_task_def set_task_def IsExist_def Upload_def)
next
  fix sched s r
  assume a: "Save_run sess sched (Save_init f st) = Some s \<and> caller s = Returned r"
  then have run: "Save_run sess sched (Save_init f st) = Some s" by simp
  from Save_reach_inv[OF run] have co: "caller_ok sess f st s" by (simp add: Save_inv_def)
  from Save_slot[OF run fx] obtain e t where
    xs: "Extent (o_file s) x = Some e" "tasks s x = Some t" "task_ok sess st s ex e t"
    by blast
  have "t \<noteq> Finished"
  proof
    assume "t = Finished"
    with xs(3) dx fresh fails show False by (auto simp: task_ok_def)
  qed
  with xs(2) have nd: "\<not> all_done s" by (auto simp: all_done_def)
  with co a obtain i where i: "tasks s i = Some Abandoned"
    and ncu: "no_cache_upload (new_calls st s)"
    by (auto simp: caller_ok_def split: if_splits)
  from Save_abandoned_error[OF run i] obtain e0 err' h where
    ab: "upload_fault st h (CurrentKey sess e0) = Some err'" "caller s = Returned (Some err')"
    by blast
  from ab(1) rest have "CurrentKey sess e0 = CurrentKey sess ex" by (metis option.distinct(1))
  with ab(1) fails have "err' = err" by simp
  with ab(2) a ncu show "r = Some err" "no_cache_upload (new_calls st s)" by simp_all
next
  fix sched s
  assume run: "Save_run sess sched (Save_init f st) = Some s"
  from Save_extent_effect[OF run fx] fails show "Extent (o_file s) x = Some ex" by auto
next
  fix sched s j e
  assume run: "Save_run sess sched (Save_init f st) = Some s" and e: "Extent f j = Some e"
  from Save_extent_effect[OF run e]
  show "map_option Extent.Key (Extent (o_file s) j) = Some (Extent.Key e)" by auto
next
  fix sched s j e
  assume a: "Save_run sess sched (Save_init f st) = Some s \<and> j \<noteq> x \<and>
          Extent f j = Some e \<and> Extent.dirty e \<and> objects st (CurrentKey sess e) = None \<and>
          (\<forall>i e'. i \<noteq> j \<and> Extent f i = Some e' \<longrightarrow> CurrentKey sess e' \<noteq> CurrentKey sess e)"
    and fin: "tasks s j = Some Finished"
  then show "Extent (o_file s) j = Some (e\<lparr>Extent.dirty := False\<rparr>)"
    by (intro Save_unique_upload_clears[where sched = sched and f = f and st = st
          and sess = sess]) simp_all
next
  fix sched s j e
  assume a: "Save_run sess sched (Save_init f st) = Some s \<and> j \<noteq> x \<and>
          Extent f j = Some e \<and> Extent.dirty e \<and> objects st (CurrentKey sess e) = None \<and>
          (\<forall>i e'. i \<noteq> j \<and> Extent f i = Some e' \<longrightarrow> CurrentKey sess e' \<noteq> CurrentKey sess e)"
    and nf: "tasks s j \<noteq> Some Finished"
  then have run: "Save_run sess sched (Save_init f st) = Some s" and ej: "Extent f j = Some e"
    by simp_all
  from a fx have kj: "CurrentKey sess e \<noteq> CurrentKey sess ex" by metis
  from Save_slot[OF run ej] obtain e' t where
    js: "Extent (o_file s) j = Some e'" "tasks s j = Some t" "task_ok sess st s e e' t"
    by blast
  from js(3) kj rest have "t \<noteq> Abandoned" "\<forall>err'. t \<noteq> Sending err'"
    by (auto simp: task_ok_def)
  with nf js(2) have "t = Start \<or> (\<exists>k. t = Exist k) \<or> (\<exists>k. t = Uploading k) \<or> t = Clearing"
    by (cases t) auto
  with js(1,2) show "Save_step sess (Task j) s \<noteq> None"
    by (auto simp: Save_task_def split: prod.splits option.splits)
qed


theorem Save_one_upload_fails_witness:
  "Extent ex_file2 0 = Some \<lparr>Extent.Key = ''stale-a'', body = [1], Extent.dirty = True\<rparr> \<and>
   objects ex_faulty (KeyGen ex_sess [1]) = None \<and>
   upload_fault ex_faulty [] (KeyGen ex_sess [1]) = Some (Failure ''io'') \<and>
   (\<exists>s. Save_run ex_sess [Task 0, Task 0, Task 0, Task 0] (Save_init ex_file2 ex_faulty) = Some s \<and>
        caller s = Returned (Some (Failure ''io''))) \<and>
   Save_run ex_sess [Task 0, Task 0, Task 0, Task 0, Task 1, Task 1, Task 1, Task 1]
     (Save_init ex_file2 ex_faulty) \<noteq> None \<and>
   no_cache_upload (new_calls ex_faulty
     (the (Save_run ex_sess [Task 0, Task 0, Task 0, Task 0, Task 1, Task 1, Task 1, Task 1]
       (Save_init ex_file2 ex_faulty)))) \<and>
   Extent (o_file
     (the (Save_run ex_sess [Task 0, Task 0, Task 0, Task 0, Task 1, Task 1, Task 1, Task 1]
       (Save_init ex_file2 ex_faulty)))) 1
     = Some \<lparr>Extent.Key = ''stale-b'', body = [2], Extent.dirty = False\<rparr>"
proof -
  let ?ex = "\<lparr>Extent.Key = ''stale-a'', body = [1], Extent.dirty = True\<rparr>"
  let ?e1 = "\<lparr>Extent.Key = ''stale-b'', body = [2], Extent.dirty = True\<rparr>"
  let ?sched = "[Task 0, Task 0, Task 0, Task 0, Task 1, Task 1, Task 1, Task 1]"
  let ?s = "the (Save_run ex_sess ?sched (Save_init ex_file2 ex_faulty))"
  have h: "Extent ex_file2 0 = Some ?ex" "Extent.dirty ?ex"
    "objects ex_faulty (CurrentKey ex_sess ?ex) = None"
    "\<forall>h. upload_fault ex_faulty h (CurrentKey ex_sess ?ex) = Some (Failure ''io'')"
    "\<forall>h k. k \<noteq> CurrentKey ex_sess ?ex \<longrightarrow> upload_fault ex_faulty h k = None"
    by (simp_all add: ex_defs CurrentKey_def)
  note inst = Save_one_upload_fails[OF h]
  have k: "CurrentKey ex_sess ?ex = KeyGen ex_sess [1]" by (simp add: CurrentKey_def)
  from inst have p1: "\<exists>s. Save_run ex_sess [Task 0, Task 0, Task 0, Task 0]
        (Save_init ex_file2 ex_faulty) = Some s \<and> caller s = Returned (Some (Failure ''io''))"
    by blast
  have run: "Save_run ex_sess ?sched (Save_init ex_file2 ex_faulty) = Some ?s"
    by (simp add: ex_defs Save_defs)
  have ret: "caller ?s = Returned (Some (Failure ''io''))"
    by (simp add: ex_defs Save_defs)
  from inst run ret have p2: "no_cache_upload (new_calls ex_faulty ?s)" by blast
  have o: "(1::64 word) \<noteq> 0" "Extent ex_file2 1 = Some ?e1" "Extent.dirty ?e1"
    "objects ex_faulty (CurrentKey ex_sess ?e1) = None"
    "\<forall>i e'. i \<noteq> 1 \<and> Extent ex_file2 i = Some e' \<longrightarrow>
        CurrentKey ex_sess e' \<noteq> CurrentKey ex_sess ?e1"
    "tasks ?s 1 = Some Finished"
    by (simp_all add: ex_defs Save_defs)
  from inst run o have "Extent (o_file ?s) 1 = Some (?e1\<lparr>Extent.dirty := False\<rparr>)"
    by blast
  then have p3: "Extent (o_file ?s) 1
      = Some \<lparr>Extent.Key = ''stale-b'', body = [2], Extent.dirty = False\<rparr>"
    by simp
  have p0: "Save_run ex_sess ?sched (Save_init ex_file2 ex_faulty) \<noteq> None"
    using run by (rule Some_the_not_None)
  from h(3,4) have h3: "objects ex_faulty (KeyGen ex_sess [1]) = None"
    "upload_fault ex_faulty [] (KeyGen ex_sess [1]) = Some (Failure ''io'')"
    unfolding k by blast+
  show ?thesis using h(1) h3 p1 p0 p2 p3 by (intro conjI) assumption+
qed

section \<open>Extents with identical bodies\<close>

text \<open>
  C2 as stated fails. For the example file, started on a store that already holds the
  content of its extent, \<open>Save\<close> skips the upload and succeeds, and the extent's \<open>Key\<close>
  field still is the old one, not the content address of its body. For the file with
  two identical dirty extents, when both existence checks come before both uploads
  the content is uploaded twice, and the two \<open>Key\<close> fields are as different as before.
\<close>

theorem Save_dedup_counterexample:
  "(case Save_run ex_sess [Task 0, Task 0, Caller]
          (Save_init ex_file
             (ex_store\<lparr>objects := [CurrentKey ex_sess ex_extent \<mapsto> Raw (body ex_extent)]\<rparr>)) of
      None \<Rightarrow> False
    | Some s \<Rightarrow>
        caller s = Returned None \<and>
        uploads_of (CurrentKey ex_sess ex_extent) (calls (store s)) = [] \<and>
        map_option Extent.Key (Extent (o_file s) 0) = Some ''old'' \<and>
        ''old'' \<noteq> CurrentKey ex_sess ex_extent) \<and>
   (case Save_run ex_sess [Task 0, Task 0, Task 1, Task 1, Task 0, Task 0, Task 1, Task 1, Caller]
          (Save_init ex_twins ex_store) of
      None \<Rightarrow> False
    | Some s \<Rightarrow>
        caller s = Returned None \<and>
        uploads_of (KeyGen ex_sess [7]) (calls (store s)) =
          [CallUpload (KeyGen ex_sess [7]) (Raw [7]), CallUpload (KeyGen ex_sess [7]) (Raw [7])] \<and>
        Extent (o_file s) 0 = Some \<lparr>Extent.Key = ''stale-a'', body = [7], Extent.dirty = False\<rparr> \<and>
        Extent (o_file s) 1 = Some \<lparr>Extent.Key = ''stale-b'', body = [7], Extent.dirty = False\<rparr>)"
  by (simp add: ex_defs Save_defs uploads_of_def)

lemma store_ok_upload:
  "store_ok sess f st s \<Longrightarrow> CallUpload k b \<in> set (new_calls st s) \<Longrightarrow> objects st k = None"
  by (simp add: store_ok_def)

lemma card_Collect_pos: "1 \<le> card {x. P x} \<Longrightarrow> \<exists>x. P x"
  by (rule ccontr) simp

lemma uploads_of_member:
  "CallUpload k b \<in> set cs \<Longrightarrow> 1 \<le> length (uploads_of k cs)"
proof -
  assume "CallUpload k b \<in> set cs"
  then have "uploads_of k cs \<noteq> []"
    by (force simp: uploads_of_def filter_empty_conv)
  then show ?thesis by (cases "uploads_of k cs") simp_all
qed

lemma Save_success_all_done:
  assumes "Save_run sess sched (Save_init f st) = Some s" and "caller s = Returned None"
  shows "all_done s"
proof -
  from Save_reach_inv[OF assms(1)] have "caller_ok sess f st s" by (simp add: Save_inv_def)
  with assms(2) show ?thesis by (auto simp: caller_ok_def split: if_splits)
qed

text \<open>
  C2, amended: in every run of \<open>File.Save\<close>, no upload is made under a key that the store
  already holds when the call starts (the existence check skips it), and every extent
  keeps its \<open>Key\<close> field and its body. For a file of two dirty extents with identical
  bodies whose content is not in the store, a call that has returned success has
  uploaded the content at least once and at most twice, and at least as many of the
  extents are non-dirty as uploads were made.
\<close>

theorem Save_dedup:
  "Save_run sess sched (Save_init f st) = Some s \<longrightarrow>
     (objects st k \<noteq> None \<longrightarrow> uploads_of k (new_calls st s) = []) \<and>
     (\<forall>x e. Extent f x = Some e \<longrightarrow>
        (\<exists>e'. Extent (o_file s) x = Some e' \<and> Extent.Key e' = Extent.Key e \<and> body e' = body e)) \<and>
     (Extent f = [i \<mapsto> ea, j \<mapsto> eb] \<and> i \<noteq> j \<and> body ea = body eb \<and>
      Extent.dirty ea \<and> Extent.dirty eb \<and> objects st (CurrentKey sess ea) = None \<and>
      caller s = Returned None \<longrightarrow>
        1 \<le> length (uploads_of (CurrentKey sess ea) (new_calls st s)) \<and>
        length (uploads_of (CurrentKey sess ea) (new_calls st s)) \<le> 2 \<and>
        length (uploads_of (CurrentKey sess ea) (new_calls st s))
          \<le> card {x. \<exists>e'. Extent (o_file s) x = Some e' \<and> \<not> Extent.dirty e'})"
proof (intro impI conjI allI)
  assume run: "Save_run sess sched (Save_init f st) = Some s"
  assume present: "objects st k \<noteq> None"
  from Save_reach_inv[OF run] have so: "store_ok sess f st s" by (simp add: Save_inv_def)
  have "\<not> (\<exists>b. CallUpload k b \<in> set (new_calls st s))"
  proof
    assume "\<exists>b. CallUpload k b \<in> set (new_calls st s)"
    then obtain b where "CallUpload k b \<in> set (new_calls st s)" ..
    from store_ok_upload[OF so this] present show False by simp
  qed
  then show "uploads_of k (new_calls st s) = []"
    by (auto simp: uploads_of_def filter_empty_conv split: call.splits)
next
  fix x e
  assume run: "Save_run sess sched (Save_init f st) = Some s" and e: "Extent f x = Some e"
  from Save_extent_effect[OF run e]
  show "\<exists>e'. Extent (o_file s) x = Some e' \<and> Extent.Key e' = Extent.Key e \<and> body e' = body e"
    by auto
next
  assume run: "Save_run sess sched (Save_init f st) = Some s"
  assume a: "Extent f = [i \<mapsto> ea, j \<mapsto> eb] \<and> i \<noteq> j \<and> body ea = body eb \<and>
      Extent.dirty ea \<and> Extent.dirty eb \<and> objects st (CurrentKey sess ea) = None \<and>
      caller s = Returned None"
  let ?k = "CurrentKey sess ea"
  let ?n = "length (uploads_of ?k (new_calls st s))"
  from a Save_success_all_done[OF run] have ad: "all_done s" by simp
  from a have fi: "Extent f i = Some ea" by simp
  from Save_slot[OF run fi] obtain e t where
    e: "Extent (o_file s) i = Some e" "tasks s i = Some t" "task_ok sess st s ea e t"
    by blast
  from e(2) ad have "t = Finished" by (auto simp: all_done_def dest: spec[of _ i])
  with e(3) a obtain b where "CallUpload ?k b \<in> set (new_calls st s)"
    by (auto simp: task_ok_def)
  then show "1 \<le> ?n" by (rule uploads_of_member)
  have cnt: "?n = card {x. uploader sess f s ?k x}"
    using Save_reach_count[OF run] by (simp add: count_ok_def)
  have sub: "{x. uploader sess f s ?k x} \<subseteq> {i, j}"
    using a by (auto simp: uploader_def split: option.splits if_splits)
  then have "card {x. uploader sess f s ?k x} \<le> card {i, j}"
    by (intro card_mono) simp_all
  also have "\<dots> \<le> 2" by (simp add: card_insert_if)
  finally show "?n \<le> 2" using cnt by simp
  have "{x. uploader sess f s ?k x} \<subseteq> {x. \<exists>e'. Extent (o_file s) x = Some e' \<and> \<not> Extent.dirty e'}"
  proof
    fix x assume "x \<in> {x. uploader sess f s ?k x}"
    then have u: "uploader sess f s ?k x" by simp
    then obtain t' where "tasks s x = Some t'"
      by (auto simp: uploader_def split: option.splits)
    with ad have "tasks s x = Some Finished" by (auto simp: all_done_def dest: spec[of _ x])
    with u show "x \<in> {x. \<exists>e'. Extent (o_file s) x = Some e' \<and> \<not> Extent.dirty e'}"
      by (auto simp: uploader_def uploaded_def split: option.splits)
  qed
  then have "card {x. uploader sess f s ?k x}
      \<le> card {x. \<exists>e'. Extent (o_file s) x = Some e' \<and> \<not> Extent.dirty e'}"
    by (intro card_mono) simp_all
  with cnt show "?n \<le> card {x. \<exists>e'. Extent (o_file s) x = Some e' \<and> \<not> Extent.dirty e'}"
    by simp
qed


theorem Save_dedup_witness:
  "Save_run ex_sess [Task 0, Task 0, Task 1, Task 1, Caller]
     (Save_init ex_twins (ex_store\<lparr>objects := [KeyGen ex_sess [7] \<mapsto> Raw [7]]\<rparr>)) \<noteq> None \<and>
   uploads_of (KeyGen ex_sess [7])
     (new_calls (ex_store\<lparr>objects := [KeyGen ex_sess [7] \<mapsto> Raw [7]]\<rparr>)
       (the (Save_run ex_sess [Task 0, Task 0, Task 1, Task 1, Caller]
         (Save_init ex_twins (ex_store\<lparr>objects := [KeyGen ex_sess [7] \<mapsto> Raw [7]]\<rparr>))))) = [] \<and>
   Save_run ex_sess [Task 0, Task 0, Task 0, Task 0, Task 1, Task 1, Caller]
     (Save_init ex_twins ex_store) \<noteq> None \<and>
   caller (the (Save_run ex_sess [Task 0, Task 0, Task 0, Task 0, Task 1, Task 1, Caller]
       (Save_init ex_twins ex_store))) = Returned None \<and>
   1 \<le> length (uploads_of (KeyGen ex_sess [7])
     (new_calls ex_store (the (Save_run ex_sess [Task 0, Task 0, Task 0, Task 0, Task 1, Task 1, Caller]
       (Save_init ex_twins ex_store))))) \<and>
   length (uploads_of (KeyGen ex_sess [7])
     (new_calls ex_store (the (Save_run ex_sess [Task 0, Task 0, Task 0, Task 0, Task 1, Task 1, Caller]
       (Save_init ex_twins ex_store))))) \<le> 2 \<and>
   length (uploads_of (KeyGen ex_sess [7])
     (new_calls ex_store (the (Save_run ex_sess [Task 0, Task 0, Task 0, Task 0, Task 1, Task 1, Caller]
       (Save_init ex_twins ex_store)))))
     \<le> card {x. \<exists>e'. Extent (o_file (the (Save_run ex_sess
            [Task 0, Task 0, Task 0, Task 0, Task 1, Task 1, Caller]
            (Save_init ex_twins ex_store)))) x = Some e' \<and> \<not> Extent.dirty e'} \<and>
   (\<exists>e'. Extent (o_file (the (Save_run ex_sess [Task 0, Task 0, Task 0, Task 0, Task 1, Task 1, Caller]
       (Save_init ex_twins ex_store)))) 1 = Some e' \<and>
      Extent.Key e' = ''stale-b'' \<and> body e' = [7])"
proof -
  let ?ea = "\<lparr>Extent.Key = ''stale-a'', body = [7], Extent.dirty = True\<rparr>"
  let ?eb = "\<lparr>Extent.Key = ''stale-b'', body = [7], Extent.dirty = True\<rparr>"
  let ?st = "ex_store\<lparr>objects := [KeyGen ex_sess [7] \<mapsto> Raw [7]]\<rparr>"
  let ?p = "[Task 0, Task 0, Task 1, Task 1, Caller]"
  let ?q = "[Task 0, Task 0, Task 0, Task 0, Task 1, Task 1, Caller]"
  let ?s = "the (Save_run ex_sess ?p (Save_init ex_twins ?st))"
  let ?t = "the (Save_run ex_sess ?q (Save_init ex_twins ex_store))"
  have run1: "Save_run ex_sess ?p (Save_init ex_twins ?st) = Some ?s"
    by (simp add: ex_defs Save_defs)
  have pres: "objects ?st (KeyGen ex_sess [7]) \<noteq> None" by simp
  from Save_dedup[where sess = ex_sess and sched = ?p and f = ex_twins and st = ?st
      and s = ?s and k = "KeyGen ex_sess [7]"] run1 pres
  have p1: "uploads_of (KeyGen ex_sess [7]) (new_calls ?st ?s) = []" by blast
  have run2: "Save_run ex_sess ?q (Save_init ex_twins ex_store) = Some ?t"
    by (simp add: ex_defs Save_defs)
  have ret: "caller ?t = Returned None"
    by (simp add: ex_defs Save_defs)
  have h: "Extent ex_twins = [0 \<mapsto> ?ea, 1 \<mapsto> ?eb] \<and> (0::64 word) \<noteq> 1 \<and> body ?ea = body ?eb \<and>
      Extent.dirty ?ea \<and> Extent.dirty ?eb \<and> objects ex_store (CurrentKey ex_sess ?ea) = None"
    by (simp add: ex_defs)
  have k: "CurrentKey ex_sess ?ea = KeyGen ex_sess [7]" by (simp add: CurrentKey_def)
  note inst = Save_dedup[where sess = ex_sess and sched = ?q and f = ex_twins and st = ex_store
      and s = ?t and i = 0 and j = 1 and ea = ?ea and eb = ?eb]
  from inst run2 h ret
  have "1 \<le> length (uploads_of (CurrentKey ex_sess ?ea) (new_calls ex_store ?t)) \<and>
        length (uploads_of (CurrentKey ex_sess ?ea) (new_calls ex_store ?t)) \<le> 2 \<and>
        length (uploads_of (CurrentKey ex_sess ?ea) (new_calls ex_store ?t))
          \<le> card {x. \<exists>e'. Extent (o_file ?t) x = Some e' \<and> \<not> Extent.dirty e'}"
    by blast
  then have p2: "1 \<le> length (uploads_of (KeyGen ex_sess [7]) (new_calls ex_store ?t))"
    "length (uploads_of (KeyGen ex_sess [7]) (new_calls ex_store ?t)) \<le> 2"
    "length (uploads_of (KeyGen ex_sess [7]) (new_calls ex_store ?t))
       \<le> card {x. \<exists>e'. Extent (o_file ?t) x = Some e' \<and> \<not> Extent.dirty e'}"
    unfolding k by blast+
  have e1: "Extent ex_twins 1 = Some ?eb" by (simp add: ex_twins_def)
  from inst run2 e1
  have "\<exists>e'. Extent (o_file ?t) 1 = Some e' \<and> Extent.Key e' = Extent.Key ?eb \<and> body e' = body ?eb"
    by blast
  then have p3: "\<exists>e'. Extent (o_file ?t) 1 = Some e' \<and> Extent.Key e' = ''stale-b'' \<and> body e' = [7]"
    by simp
  have n1: "Save_run ex_sess ?p (Save_init ex_twins ?st) \<noteq> None"
    using run1 by (rule Some_the_not_None)
  have n2: "Save_run ex_sess ?q (Save_init ex_twins ex_store) \<noteq> None"
    using run2 by (rule Some_the_not_None)
  show ?thesis using n1 p1 n2 ret p2 p3 by (intro conjI) assumption+
qed

end
